theory Spec2Isabelle
  imports Main
begin

section \<open>Changelog builder of iwmywn-release: the model\<close>

text \<open>
  The theory embeds the changelog builder (\<^verbatim>\<open>changelogBuilder.ts\<close>, the last file of
  \<^verbatim>\<open>src/unnamed/part_003\<close>): \<^verbatim>\<open>convertStringToLog\<close>, \<^verbatim>\<open>getPrLink\<close>, \<^verbatim>\<open>getCommitLink\<close>,
  \<^verbatim>\<open>buildSection\<close>, \<^verbatim>\<open>buildItems\<close>, \<^verbatim>\<open>buildFooter\<close> and \<^verbatim>\<open>buildChangelog\<close>.

  Modelling decisions.
  \<^item> A JavaScript string is a \<^typ>\<open>string\<close>: a list of code units, here restricted to the
    code units \<open>0..255\<close> (the Latin-1 range). The character classes of the title
    pattern, \<^verbatim>\<open>trim\<close> and \<^verbatim>\<open>toLowerCase\<close> are written out for this range.
  \<^item> \<^verbatim>\<open>undefined\<close> is \<^const>\<open>None\<close>; a thrown \<^verbatim>\<open>TypeError\<close> is \<open>Inl TypeError\<close>.
  \<^item> The two collaborators that run external commands are parameters: the text
    returned by \<^verbatim>\<open>getLog()\<close> is the argument \<open>logString\<close>, the pair returned by
    \<^verbatim>\<open>getOwnerAndRepo()\<close> is the pair of arguments \<open>owner\<close> and \<open>repo\<close>.
\<close>

subsection \<open>JavaScript string primitives\<close>

datatype error = TypeError

definition LF :: char where
  "LF = CHR 0x0A"

definition CR :: char where
  "CR = CHR 0x0D"

text \<open>
  \<open>afterPrefix p s\<close> is the rest of \<open>s\<close> after its prefix \<open>p\<close>, if \<open>s\<close> starts with
  \<open>p\<close>. It serves \<^verbatim>\<open>includes\<close> and \<^verbatim>\<open>split\<close>.
\<close>

fun afterPrefix :: "string \<Rightarrow> string \<Rightarrow> string option" where
  "afterPrefix [] s = Some s"
| "afterPrefix (p # ps) [] = None"
| "afterPrefix (p # ps) (c # cs) = (if c = p then afterPrefix ps cs else None)"

definition startsWith :: "string \<Rightarrow> string \<Rightarrow> bool" where
  "startsWith s p = (afterPrefix p s \<noteq> None)"

text \<open>\<^verbatim>\<open>s.includes(sub)\<close>: \<open>sub\<close> occurs in \<open>s\<close> as a contiguous substring.\<close>

fun strIncludes :: "string \<Rightarrow> string \<Rightarrow> bool" where
  "strIncludes [] sub = (sub = [])"
| "strIncludes (c # cs) sub = (startsWith (c # cs) sub \<or> strIncludes cs sub)"

lemma afterPrefix_length: "afterPrefix p s = Some r \<Longrightarrow> length r + length p = length s"
  by (induction p s rule: afterPrefix.induct) (auto split: if_splits)

text \<open>
  \<^verbatim>\<open>s.split(sep)\<close> for a string separator: the pieces between the successive leftmost
  occurrences of \<open>sep\<close>. \<open>cur\<close> is the piece being read, last code unit first. With the
  empty separator JavaScript returns the code units one by one.
\<close>

function splitFrom :: "string \<Rightarrow> string \<Rightarrow> string \<Rightarrow> string list" where
  "splitFrom sep cur [] = [rev cur]"
| "splitFrom sep cur (c # cs) =
     (case (if sep = [] then None else afterPrefix sep (c # cs)) of
        Some rest \<Rightarrow> rev cur # splitFrom sep [] rest
      | None \<Rightarrow> splitFrom sep (c # cur) cs)"
  by pat_completeness auto
termination
  apply (relation "measure (\<lambda>(sep, cur, s). length s)")
    apply (auto split: if_splits dest!: afterPrefix_length)
  subgoal for sep cs r by (cases sep) auto
  done

definition split :: "string \<Rightarrow> string \<Rightarrow> string list" where
  "split s sep = (if sep = [] then map (\<lambda>c. [c]) s else splitFrom sep [] s)"

text \<open>\<^verbatim>\<open>xs.join(sep)\<close>.\<close>

fun join :: "string \<Rightarrow> string list \<Rightarrow> string" where
  "join sep [] = []"
| "join sep [x] = x"
| "join sep (x # y # ys) = x @ sep @ join sep (y # ys)"

text \<open>
  White space and line terminators of ECMAScript among the code units \<open>0..255\<close>: TAB, LF,
  VT, FF, CR, SP and NBSP. This is the class \<^verbatim>\<open>\s\<close> and what \<^verbatim>\<open>trim\<close> strips.
\<close>

definition isSpace :: "char \<Rightarrow> bool" where
  "isSpace c = (c \<in> set [CHR 0x09, CHR 0x0A, CHR 0x0B, CHR 0x0C, CHR 0x0D, CHR 0x20, CHR 0xA0])"

definition trim :: "string \<Rightarrow> string" where
  "trim s = rev (dropWhile isSpace (rev (dropWhile isSpace s)))"

text \<open>The class \<^verbatim>\<open>\w\<close>: \<^verbatim>\<open>[A-Za-z0-9_]\<close>.\<close>

definition isWord :: "char \<Rightarrow> bool" where
  "isWord c =
     (c \<in> set ''abcdefghijklmnopqrstuvwxyzABCDEFGHIJKLMNOPQRSTUVWXYZ0123456789_'')"

text \<open>The class \<^verbatim>\<open>.\<close> (no \<^verbatim>\<open>s\<close> flag): every code unit but a line terminator.\<close>

definition isDot :: "char \<Rightarrow> bool" where
  "isDot c = (c \<noteq> LF \<and> c \<noteq> CR)"

text \<open>The class \<^verbatim>\<open>[^)]\<close>.\<close>

definition notRParen :: "char \<Rightarrow> bool" where
  "notRParen c = (c \<noteq> CHR '')'')"

text \<open>
  \<^verbatim>\<open>toLowerCase\<close> on the code units \<open>0..255\<close>: \<^verbatim>\<open>A-Z\<close> and the Latin-1 capitals
  \<open>0xC0..0xDE\<close> (without the multiplication sign \<open>0xD7\<close>) move up by \<open>0x20\<close>.
\<close>

definition upperCaseUnits :: string where
  "upperCaseUnits = ''ABCDEFGHIJKLMNOPQRSTUVWXYZ'' @
     [CHR 0xC0, CHR 0xC1, CHR 0xC2, CHR 0xC3, CHR 0xC4, CHR 0xC5, CHR 0xC6, CHR 0xC7,
      CHR 0xC8, CHR 0xC9, CHR 0xCA, CHR 0xCB, CHR 0xCC, CHR 0xCD, CHR 0xCE, CHR 0xCF,
      CHR 0xD0, CHR 0xD1, CHR 0xD2, CHR 0xD3, CHR 0xD4, CHR 0xD5, CHR 0xD6,
      CHR 0xD8, CHR 0xD9, CHR 0xDA, CHR 0xDB, CHR 0xDC, CHR 0xDD, CHR 0xDE]"

definition lowerCaseUnits :: string where
  "lowerCaseUnits = ''abcdefghijklmnopqrstuvwxyz'' @
     [CHR 0xE0, CHR 0xE1, CHR 0xE2, CHR 0xE3, CHR 0xE4, CHR 0xE5, CHR 0xE6, CHR 0xE7,
      CHR 0xE8, CHR 0xE9, CHR 0xEA, CHR 0xEB, CHR 0xEC, CHR 0xED, CHR 0xEE, CHR 0xEF,
      CHR 0xF0, CHR 0xF1, CHR 0xF2, CHR 0xF3, CHR 0xF4, CHR 0xF5, CHR 0xF6,
      CHR 0xF8, CHR 0xF9, CHR 0xFA, CHR 0xFB, CHR 0xFC, CHR 0xFD, CHR 0xFE]"

definition lowerUnit :: "char \<Rightarrow> char" where
  "lowerUnit c = (case map_of (zip upperCaseUnits lowerCaseUnits) c of
                    None \<Rightarrow> c | Some d \<Rightarrow> d)"

definition toLowerCase :: "string \<Rightarrow> string" where
  "toLowerCase s = map lowerUnit s"

text \<open>\<^verbatim>\<open>pr.replace("#", "")\<close>: the first \<^verbatim>\<open>#\<close> is removed.\<close>

definition replaceHash :: "string \<Rightarrow> string" where
  "replaceHash pr = remove1 (CHR ''#'') pr"

text \<open>The truth value of a possibly undefined string: defined and not empty.\<close>

fun truthy :: "string option \<Rightarrow> bool" where
  "truthy None = False"
| "truthy (Some s) = (s \<noteq> [])"

subsection \<open>The regular expression of the commit title\<close>

text \<open>
  A backtracking matcher for the fragment of ECMAScript patterns the title pattern uses.
  Quantifiers range over single character classes only, as they do in the pattern.
  \<open>rmatch r n (s, caps)\<close> lists, in the order in which the backtracking search of
  ECMAScript tries them, every way \<open>r\<close> can match a prefix of the rest \<open>s\<close> of an input of
  length \<open>n\<close>: the rest after the match and the captures. A greedy quantifier lists the
  longest match first, a lazy one the shortest.
\<close>

datatype re =
    Chr "char \<Rightarrow> bool"
  | Star "char \<Rightarrow> bool"
  | Plus "char \<Rightarrow> bool"
  | LazyPlus "char \<Rightarrow> bool"
  | Seq re re
  | Opt re
  | Group nat re
  | Bol
  | Eol

type_synonym captures = "nat \<Rightarrow> string option"

fun rmatch :: "re \<Rightarrow> nat \<Rightarrow> string \<times> captures \<Rightarrow> (string \<times> captures) list" where
  "rmatch (Chr P) n (s, caps) =
     (case s of [] \<Rightarrow> [] | c # cs \<Rightarrow> if P c then [(cs, caps)] else [])"
| "rmatch (Star P) n (s, caps) =
     map (\<lambda>k. (drop k s, caps)) (rev [0 ..< Suc (length (takeWhile P s))])"
| "rmatch (Plus P) n (s, caps) =
     map (\<lambda>k. (drop k s, caps)) (rev [1 ..< Suc (length (takeWhile P s))])"
| "rmatch (LazyPlus P) n (s, caps) =
     map (\<lambda>k. (drop k s, caps)) [1 ..< Suc (length (takeWhile P s))]"
| "rmatch (Seq r1 r2) n st = concat (map (rmatch r2 n) (rmatch r1 n st))"
| "rmatch (Opt r) n st = rmatch r n st @ [st]"
| "rmatch (Group i r) n (s, caps) =
     map (\<lambda>(s', caps'). (s', caps'(i \<mapsto> take (length s - length s') s)))
       (rmatch r n (s, caps))"
| "rmatch Bol n (s, caps) = (if length s = n then [(s, caps)] else [])"
| "rmatch Eol n (s, caps) = (if s = [] then [(s, caps)] else [])"

text \<open>
  \<^verbatim>\<open>str.match(re)\<close> for a pattern without the \<^verbatim>\<open>g\<close> flag: the start positions are tried
  from left to right, and the first match found gives the captures; \<^verbatim>\<open>null\<close> is \<open>None\<close>.
\<close>

definition jsMatch :: "re \<Rightarrow> string \<Rightarrow> captures option" where
  "jsMatch r s =
     (case concat (map (\<lambda>i. rmatch r (length s) (drop i s, Map.empty)) [0 ..< Suc (length s)]) of
        [] \<Rightarrow> None
      | (rest, caps) # _ \<Rightarrow> Some caps)"

definition lit :: "char \<Rightarrow> re" where
  "lit c = Chr (\<lambda>x. x = c)"

text \<open>
  \<^verbatim>\<open>/^(\w+)(?:\(([^)]+)\))?:\s+(.+?)(?:\s*\((@[^)]+)\))?(?:\s+\((#[^)]+)\))?$/\<close>
\<close>

definition titleRegex :: re where
  "titleRegex =
     Seq Bol
    (Seq (Group 1 (Plus isWord))
    (Seq (Opt (Seq (lit (CHR ''('')) (Seq (Group 2 (Plus notRParen)) (lit (CHR '')'')))))
    (Seq (lit (CHR '':''))
    (Seq (Plus isSpace)
    (Seq (Group 3 (LazyPlus isDot))
    (Seq (Opt (Seq (Star isSpace) (Seq (lit (CHR ''(''))
            (Seq (Group 4 (Seq (lit (CHR ''@'')) (Plus notRParen))) (lit (CHR '')''))))))
    (Seq (Opt (Seq (Plus isSpace) (Seq (lit (CHR ''(''))
            (Seq (Group 5 (Seq (lit (CHR ''#'')) (Plus notRParen))) (lit (CHR '')''))))))
     Eol)))))))"

subsection \<open>The commit parser\<close>

definition lineDelimiter :: string where
  "lineDelimiter = ''thisismylinedelimiterthatwilldefinitelynotappearintheactualcommitmessage''"

definition logDelimiter :: string where
  "logDelimiter = ''thisismylogdelimiterthatwilldefinitelynotappearintheactualcommitmessage''"

record CommitHash =
  short :: string
  full :: string

record LogItem =
  hashes :: "CommitHash list"
  type :: string
  scope :: "string option"
  message :: string
  usernames :: "string list"
  prs :: "string list"
  body :: string

text \<open>
  One turn of the loop of \<^verbatim>\<open>convertStringToLog\<close>, on the pair of the two arrays it
  fills. An entry with fewer than three fields leaves \<^verbatim>\<open>title\<close> undefined, and
  \<^verbatim>\<open>title.match\<close> throws.
\<close>

definition convertLine ::
  "LogItem list \<times> string list \<Rightarrow> string \<Rightarrow> error + (LogItem list \<times> string list)" where
  "convertLine st line =
     (case st of (log, committers) \<Rightarrow>
      if line = [] \<or> line = [CR] \<or> line = [LF] then Inr (log, committers)
      else
        (case map trim (split line logDelimiter) of
           hash # shortHash # title # rest \<Rightarrow>
             (case jsMatch titleRegex title of
                None \<Rightarrow> Inr (log, committers)
              | Some m \<Rightarrow>
                  let usernames = (if truthy (m 4) then split (the (m 4)) '', '' else []);
                      prs = (if truthy (m 5) then split (the (m 5)) '', '' else []);
                      committer = (case rest of _ # c # _ \<Rightarrow> Some c | _ \<Rightarrow> None);
                      bodyField = (case rest of b # _ \<Rightarrow> Some b | _ \<Rightarrow> None);
                      committers' =
                        (if truthy committer \<and> \<not> List.member committers (the committer)
                            \<and> \<not> strIncludes (toLowerCase (the committer)) ''github''
                         then committers @ [the committer] else committers)
                  in if truthy (m 1) \<and> truthy (m 3)
                     then Inr (log @ [\<lparr> hashes = [\<lparr> short = shortHash, full = hash \<rparr>],
                                        type = the (m 1), scope = m 2, message = the (m 3),
                                        usernames = usernames, prs = prs,
                                        body = (if truthy bodyField then the bodyField else []) \<rparr>],
                               committers')
                     else Inr (log, committers'))
         | _ \<Rightarrow> Inl TypeError))"

fun convertLoop ::
  "LogItem list \<times> string list \<Rightarrow> string list \<Rightarrow> error + (LogItem list \<times> string list)" where
  "convertLoop st [] = Inr st"
| "convertLoop st (line # lines) =
     (case convertLine st line of Inl e \<Rightarrow> Inl e | Inr st' \<Rightarrow> convertLoop st' lines)"

definition convertStringToLog :: "string list \<Rightarrow> error + (LogItem list \<times> string list)" where
  "convertStringToLog logString = convertLoop ([], []) logString"

subsection \<open>Rendering\<close>

text \<open>The display names of the three user-facing types; the keys in the order of
  \<^verbatim>\<open>Object.keys(titles)\<close>.\<close>

datatype titleKey = Feat | Impr | Fix

fun keyName :: "titleKey \<Rightarrow> string" where
  "keyName Feat = ''feat''"
| "keyName Impr = ''impr''"
| "keyName Fix = ''fix''"

fun titles :: "titleKey \<Rightarrow> string" where
  "titles Feat = ''Features''"
| "titles Impr = ''Improvements''"
| "titles Fix = ''Bug Fixes''"

definition titleKeys :: "titleKey list" where
  "titleKeys = [Feat, Impr, Fix]"

definition getPrLink :: "string \<Rightarrow> string \<Rightarrow> string \<Rightarrow> string" where
  "getPrLink owner repo pr =
     (let prNum = replaceHash pr
      in ''[#'' @ prNum @ ''](https://github.com/'' @ owner @ ''/'' @ repo @ ''/pull/'' @ prNum @ '')'')"

definition getCommitLink :: "string \<Rightarrow> string \<Rightarrow> string \<Rightarrow> string \<Rightarrow> string" where
  "getCommitLink owner repo hash longHash =
     ''['' @ hash @ ''](https://github.com/'' @ owner @ ''/'' @ repo @ ''/commit/'' @ longHash @ '')''"

text \<open>
  The four local strings of one turn of the loop of \<^verbatim>\<open>buildItems\<close>: \<^verbatim>\<open>scope\<close>,
  \<^verbatim>\<open>usernames\<close>, \<^verbatim>\<open>pr\<close> and \<^verbatim>\<open>hash\<close>; then the text the turn appends to \<^verbatim>\<open>ret\<close>.
\<close>

definition scopeText :: "bool \<Rightarrow> LogItem \<Rightarrow> string" where
  "scopeText mergeTypeAndScope item =
     (let scope0 = (if truthy (scope item) then ''**'' @ the (scope item) @ '':** '' else [])
      in if mergeTypeAndScope
         then ''**'' @ type item
              @ (if truthy (scope item) then ''('' @ the (scope item) @ '')'' else [])
              @ '':** ''
         else scope0)"

definition usernamesText :: "LogItem \<Rightarrow> string" where
  "usernamesText item =
     (if length (usernames item) > 0 then '' ('' @ join '', '' (usernames item) @ '')'' else [])"

definition prText :: "string \<Rightarrow> string \<Rightarrow> LogItem \<Rightarrow> string" where
  "prText owner repo item =
     (if length (prs item) > 0
      then '' ('' @ join '', '' (map (getPrLink owner repo) (prs item)) @ '')''
      else [])"

definition hashText :: "string \<Rightarrow> string \<Rightarrow> LogItem \<Rightarrow> string" where
  "hashText owner repo item =
     '' ('' @ join '', '' (map (\<lambda>h. getCommitLink owner repo (short h) (full h)) (hashes item))
     @ '')''"

definition itemText :: "string \<Rightarrow> string \<Rightarrow> bool \<Rightarrow> LogItem \<Rightarrow> string" where
  "itemText owner repo mergeTypeAndScope item =
     ''- '' @ scopeText mergeTypeAndScope item @ message item @ usernamesText item
     @ prText owner repo item @ hashText owner repo item @ [LF]"

fun buildItemsLoop :: "string \<Rightarrow> string \<Rightarrow> bool \<Rightarrow> string \<Rightarrow> LogItem list \<Rightarrow> string" where
  "buildItemsLoop owner repo mergeTypeAndScope ret [] = ret"
| "buildItemsLoop owner repo mergeTypeAndScope ret (item # items) =
     buildItemsLoop owner repo mergeTypeAndScope
       (ret @ itemText owner repo mergeTypeAndScope item) items"

definition buildItems :: "string \<Rightarrow> string \<Rightarrow> LogItem list \<Rightarrow> bool \<Rightarrow> string" where
  "buildItems owner repo items mergeTypeAndScope =
     buildItemsLoop owner repo mergeTypeAndScope [] items"

text \<open>The records \<^verbatim>\<open>buildSection\<close> keeps for a type (its constant \<^verbatim>\<open>items\<close>).\<close>

definition sectionItems :: "titleKey \<Rightarrow> LogItem list \<Rightarrow> LogItem list" where
  "sectionItems ty allItems =
     filter (\<lambda>item. type item = keyName ty \<and> \<not> strIncludes (body item) ''!nuf'') allItems"

definition buildSection :: "string \<Rightarrow> string \<Rightarrow> titleKey \<Rightarrow> LogItem list \<Rightarrow> string" where
  "buildSection owner repo ty allItems =
     (let ret = ''### '' @ titles ty @ [LF, LF];
          items = sectionItems ty allItems
      in if length items = 0 then [] else ret @ buildItems owner repo items False)"

subsection \<open>The footer\<close>

text \<open>The concatenation \<^verbatim>\<open>allOtherLogs\<close> of \<^verbatim>\<open>buildFooter\<close>.\<close>

definition allOtherLogs :: "LogItem list \<Rightarrow> LogItem list" where
  "allOtherLogs logs =
     (let featLogs = filter (\<lambda>item. type item = ''feat'' \<and> strIncludes (body item) ''!nuf'') logs;
          imprLogs = filter (\<lambda>item. type item = ''impr'' \<and> strIncludes (body item) ''!nuf'') logs;
          fixLogs = filter (\<lambda>item. type item = ''fix'' \<and> strIncludes (body item) ''!nuf'') logs;
          docLogs = filter (\<lambda>item. type item = ''docs'') logs;
          refactorLogs = filter (\<lambda>item. type item = ''refactor'') logs;
          perfLogs = filter (\<lambda>item. type item = ''perf'') logs;
          testLogs = filter (\<lambda>item. type item = ''test'') logs;
          buildLogs = filter (\<lambda>item. type item = ''build'') logs;
          ciLogs = filter (\<lambda>item. type item = ''ci'') logs;
          styleLogs = filter (\<lambda>item. type item = ''style'') logs;
          choreLogs = filter (\<lambda>item. type item = ''chore'') logs
      in featLogs @ imprLogs @ fixLogs @ styleLogs @ docLogs @ refactorLogs @ perfLogs
         @ ciLogs @ testLogs @ buildLogs @ choreLogs)"

text \<open>\<^verbatim>\<open>xs.findIndex(p)\<close>: the index of the first element that satisfies \<open>p\<close>, or \<open>-1\<close>.\<close>

fun findIndexFrom :: "nat \<Rightarrow> ('a \<Rightarrow> bool) \<Rightarrow> 'a list \<Rightarrow> int" where
  "findIndexFrom i p [] = - 1"
| "findIndexFrom i p (x # xs) = (if p x then int i else findIndexFrom (Suc i) p xs)"

definition findIndex :: "('a \<Rightarrow> bool) \<Rightarrow> 'a list \<Rightarrow> int" where
  "findIndex p xs = findIndexFrom 0 p xs"

text \<open>\<^verbatim>\<open>item.hashes[0].full\<close>, which does not exist when \<^verbatim>\<open>hashes\<close> is empty.\<close>

definition firstFull :: "LogItem \<Rightarrow> string option" where
  "firstFull item = (case hashes item of [] \<Rightarrow> None | h # _ \<Rightarrow> Some (full h))"

text \<open>
  The filter that gives \<^verbatim>\<open>uniqueOtherLogs\<close>: an element stays when its index is the
  index \<^verbatim>\<open>findIndex\<close> returns for its full hash.
\<close>

definition uniqueLogs :: "LogItem list \<Rightarrow> LogItem list" where
  "uniqueLogs self =
     map snd (filter (\<lambda>(index, item).
                        int index = findIndex (\<lambda>t. firstFull t = firstFull item) self)
                     (enumerate 0 self))"

definition uniqueOtherLogs :: "LogItem list \<Rightarrow> LogItem list" where
  "uniqueOtherLogs logs = uniqueLogs (allOtherLogs logs)"

definition footerIntro :: string where
  "footerIntro = ''### Nerd stuff'' @ [LF, LF]
     @ ''These changes will not be visible to users, but are included for completeness and to credit contributors.''
     @ [LF, LF]"

text \<open>
  \<^verbatim>\<open>buildFooter\<close>. Reading \<^verbatim>\<open>hashes[0].full\<close> of a record without a hash throws; the
  filter reads it for every element of \<^verbatim>\<open>allOtherLogs\<close>.
\<close>

definition buildFooter :: "string \<Rightarrow> string \<Rightarrow> LogItem list \<Rightarrow> error + string" where
  "buildFooter owner repo logs =
     (if list_ex (\<lambda>item. hashes item = []) (allOtherLogs logs) then Inl TypeError
      else if length (uniqueOtherLogs logs) > 0
           then Inr (footerIntro @ buildItems owner repo (uniqueOtherLogs logs) True)
           else Inr [])"

subsection \<open>The assembly\<close>

definition header :: string where
  "header = ''Thank you to all the contributors who made this release possible!''"

definition contributorCount :: "LogItem list \<Rightarrow> nat" where
  "contributorCount log =
     length (concat (map (\<lambda>l. filter (\<lambda>u. toLowerCase u \<noteq> ''dependabot'') (usernames l)) log))"

text \<open>The part of \<^verbatim>\<open>buildChangelog\<close> that follows the call of \<^verbatim>\<open>convertStringToLog\<close>.\<close>

definition assemble :: "string \<Rightarrow> string \<Rightarrow> LogItem list \<Rightarrow> string list \<Rightarrow> error + string" where
  "assemble owner repo log committers =
     (let final0 = (if contributorCount log > 1 \<or> length committers > 1
                    then header @ [LF, LF] else []);
          sections = filter (\<lambda>section. section \<noteq> [])
                       (map (\<lambda>ty. buildSection owner repo ty log) titleKeys);
          final1 = final0 @ join [LF] sections
      in case buildFooter owner repo log of
           Inl e \<Rightarrow> Inl e
         | Inr footer \<Rightarrow> Inr (if footer \<noteq> [] then final1 @ [LF] @ footer else final1))"

text \<open>\<^verbatim>\<open>buildChangelog\<close>, with the text \<^verbatim>\<open>getLog()\<close> returned as \<open>logString\<close>.\<close>

definition buildChangelog :: "string \<Rightarrow> string \<Rightarrow> string \<Rightarrow> error + string" where
  "buildChangelog owner repo logString =
     (let splitLog = split logString lineDelimiter
      in case convertStringToLog splitLog of
           Inl e \<Rightarrow> Inl e
         | Inr (log, committers) \<Rightarrow> assemble owner repo log committers)"

section \<open>The vocabulary and the line format, in the words of the specification\<close>

text \<open>
  The vocabulary of conventional types: the type \<^verbatim>\<open>CommitTypes\<close> of the source, which is
  commented out there and used nowhere.
\<close>

definition CommitTypes :: "string list" where
  "CommitTypes = [''feat'', ''impr'', ''fix'', ''docs'', ''refactor'', ''perf'', ''test'',
                  ''build'', ''ci'', ''style'', ''chore'', ''revert'']"

text \<open>
  The links, in the words of the specification: a pull request \<^verbatim>\<open>#N\<close> is rendered as
  \<^verbatim>\<open>[#N](.../pull/N)\<close> and a hash pair as \<^verbatim>\<open>[shorthash](.../commit/fullhash)\<close>, on the
  address of the repository, \<^verbatim>\<open>https://github.com/owner/repo\<close>. \<open>N\<close> is the reference
  without its \<^verbatim>\<open>#\<close>: what stands before the first \<^verbatim>\<open>#\<close> followed by what stands after it.
\<close>

definition specRepoUrl :: "string \<Rightarrow> string \<Rightarrow> string" where
  "specRepoUrl owner repo = ''https://github.com/'' @ owner @ ''/'' @ repo"

definition specPrNumber :: "string \<Rightarrow> string" where
  "specPrNumber pr =
     takeWhile (\<lambda>c. c \<noteq> CHR ''#'') pr @ drop 1 (dropWhile (\<lambda>c. c \<noteq> CHR ''#'') pr)"

definition specPrLink :: "string \<Rightarrow> string \<Rightarrow> string \<Rightarrow> string" where
  "specPrLink owner repo pr =
     ''[#'' @ specPrNumber pr @ '']('' @ specRepoUrl owner repo @ ''/pull/'' @ specPrNumber pr
     @ '')''"

definition specCommitLink :: "string \<Rightarrow> string \<Rightarrow> CommitHash \<Rightarrow> string" where
  "specCommitLink owner repo h =
     ''['' @ short h @ '']('' @ specRepoUrl owner repo @ ''/commit/'' @ full h @ '')''"

text \<open>
  \<^verbatim>\<open>- [**scope:** ]message[ (@user1, @user2)][ (#123, #456)] (hash-links)\<close>: a group is
  a parenthesised, comma-separated list after a blank; the groups of user names and of
  pull requests are left out when empty; the prefix is the bold scope, or in the footer
  the bold \<^verbatim>\<open>type(scope):\<close> (\<^verbatim>\<open>type:\<close> without a scope).
\<close>

definition specGroup :: "string list \<Rightarrow> string" where
  "specGroup xs = '' ('' @ join '', '' xs @ '')''"

definition specOptionalGroup :: "string list \<Rightarrow> string" where
  "specOptionalGroup xs = (if xs = [] then [] else specGroup xs)"

definition specPrefix :: "bool \<Rightarrow> LogItem \<Rightarrow> string" where
  "specPrefix footer item =
     (let sc = (case scope item of None \<Rightarrow> [] | Some s \<Rightarrow> s)
      in if footer
         then (if sc = [] then ''**'' @ type item @ '':** ''
               else ''**'' @ type item @ ''('' @ sc @ ''):** '')
         else (if sc = [] then [] else ''**'' @ sc @ '':** ''))"

definition specLine :: "string \<Rightarrow> string \<Rightarrow> bool \<Rightarrow> LogItem \<Rightarrow> string" where
  "specLine owner repo footer item =
     ''- '' @ specPrefix footer item @ message item
     @ specOptionalGroup (usernames item)
     @ specOptionalGroup (map (specPrLink owner repo) (prs item))
     @ specGroup (map (specCommitLink owner repo) (hashes item))
     @ [LF]"

section \<open>Sample logs\<close>

text \<open>
  The text \<^verbatim>\<open>git log\<close> prints for one commit under the format of \<^verbatim>\<open>getLog\<close>,
  \<^verbatim>\<open>${lineDelimiter}%H${logDelimiter}%h${logDelimiter}%s${logDelimiter}%b${logDelimiter}%cn\<close>:
  the entry delimiter, then the five fields. The entries of several commits are separated
  by a line feed.
\<close>

definition logFields :: "string \<Rightarrow> string \<Rightarrow> string \<Rightarrow> string \<Rightarrow> string \<Rightarrow> string" where
  "logFields hash shortHash subject bodyText committer =
     hash @ logDelimiter @ shortHash @ logDelimiter @ subject @ logDelimiter
     @ bodyText @ logDelimiter @ committer"

definition logEntry :: "string \<Rightarrow> string \<Rightarrow> string \<Rightarrow> string \<Rightarrow> string \<Rightarrow> string" where
  "logEntry hash shortHash subject bodyText committer =
     lineDelimiter @ logFields hash shortHash subject bodyText committer"

text \<open>One commit whose title has a type outside the vocabulary: the log, its only
  entry, and the record the parser makes of it.\<close>

definition fooLog :: string where
  "fooLog = logEntry ''a1b2c3d4'' ''a1b2'' ''foo: bar'' [] ''alice''"

definition fooLine :: string where
  "fooLine = logFields ''a1b2c3d4'' ''a1b2'' ''foo: bar'' [] ''alice''"

definition fooItem :: LogItem where
  "fooItem = \<lparr> hashes = [\<lparr> short = ''a1b2'', full = ''a1b2c3d4'' \<rparr>], type = ''foo'',
               scope = None, message = ''bar'', usernames = [], prs = [], body = [] \<rparr>"

text \<open>One commit whose title does not follow the grammar.\<close>

definition mergeLine :: string where
  "mergeLine = logFields ''a1b2c3d4'' ''a1b2'' ''Merge branch dev'' [] ''alice''"

text \<open>One unmarked \<^verbatim>\<open>fix\<close> commit.\<close>

definition fixLog :: string where
  "fixLog = logEntry ''a1b2c3d4'' ''a1b2'' ''fix: crash'' [] ''alice''"

definition fixItem :: LogItem where
  "fixItem = \<lparr> hashes = [\<lparr> short = ''a1b2'', full = ''a1b2c3d4'' \<rparr>], type = ''fix'',
               scope = None, message = ''crash'', usernames = [], prs = [], body = [] \<rparr>"

text \<open>An unmarked \<^verbatim>\<open>feat\<close> record and an unmarked \<^verbatim>\<open>impr\<close> record.\<close>

definition featItem :: LogItem where
  "featItem = \<lparr> hashes = [\<lparr> short = ''c0ff'', full = ''c0ffee00'' \<rparr>], type = ''feat'',
                scope = Some ''ui'', message = ''button'', usernames = [''@bob''],
                prs = [''#10''], body = [] \<rparr>"

definition imprItem :: LogItem where
  "imprItem = \<lparr> hashes = [\<lparr> short = ''beef'', full = ''beef0001'' \<rparr>], type = ''impr'',
                scope = None, message = ''speed'', usernames = [], prs = [], body = [] \<rparr>"

text \<open>A record with a scope and two user names, two pull requests and two hash pairs.\<close>

definition wideItem :: LogItem where
  "wideItem = \<lparr> hashes = [\<lparr> short = ''c0ff'', full = ''c0ffee00'' \<rparr>,
                          \<lparr> short = ''beef'', full = ''beef0001'' \<rparr>],
                type = ''feat'', scope = Some ''ui'', message = ''button'',
                usernames = [''@al'', ''@bo''], prs = [''#10'', ''#11''], body = [] \<rparr>"

text \<open>Two commits of one committer, with different hashes, that credit the same user.\<close>

definition aliceLog :: string where
  "aliceLog = logEntry ''a1b2c3d4'' ''a1b2'' ''fix: one (@alice)'' [] ''alice'' @ [LF]
            @ logEntry ''e5f6a7b8'' ''e5f6'' ''fix: two (@alice)'' [] ''alice''"

definition aliceItem1 :: LogItem where
  "aliceItem1 = \<lparr> hashes = [\<lparr> short = ''a1b2'', full = ''a1b2c3d4'' \<rparr>], type = ''fix'',
               scope = None, message = ''one'', usernames = [''@alice''], prs = [], body = [] \<rparr>"

definition aliceItem2 :: LogItem where
  "aliceItem2 = \<lparr> hashes = [\<lparr> short = ''e5f6'', full = ''e5f6a7b8'' \<rparr>], type = ''fix'',
               scope = None, message = ''two'', usernames = [''@alice''], prs = [], body = [] \<rparr>"

text \<open>Two marked \<^verbatim>\<open>fix\<close> entries with the same full hash.\<close>

definition dupLog :: string where
  "dupLog = logEntry ''a1b2c3d4'' ''a1b2'' ''fix: one'' ''!nuf'' ''alice'' @ [LF]
          @ logEntry ''a1b2c3d4'' ''a1b2'' ''fix: two'' ''!nuf'' ''alice''"

definition dupItem1 :: LogItem where
  "dupItem1 = \<lparr> hashes = [\<lparr> short = ''a1b2'', full = ''a1b2c3d4'' \<rparr>], type = ''fix'',
               scope = None, message = ''one'', usernames = [], prs = [], body = ''!nuf'' \<rparr>"

definition dupItem2 :: LogItem where
  "dupItem2 = \<lparr> hashes = [\<lparr> short = ''a1b2'', full = ''a1b2c3d4'' \<rparr>], type = ''fix'',
               scope = None, message = ''two'', usernames = [], prs = [], body = ''!nuf'' \<rparr>"

text \<open>A \<^verbatim>\<open>chore\<close> entry and then a \<^verbatim>\<open>docs\<close> entry with the same full hash.\<close>

definition docsChoreLog :: string where
  "docsChoreLog = logEntry ''a1b2c3d4'' ''a1b2'' ''chore: bump'' [] ''alice'' @ [LF]
          @ logEntry ''a1b2c3d4'' ''a1b2'' ''docs(api): usage'' [] ''alice''"

definition choreItem :: LogItem where
  "choreItem = \<lparr> hashes = [\<lparr> short = ''a1b2'', full = ''a1b2c3d4'' \<rparr>], type = ''chore'',
               scope = None, message = ''bump'', usernames = [], prs = [], body = [] \<rparr>"

definition docsItem :: LogItem where
  "docsItem = \<lparr> hashes = [\<lparr> short = ''a1b2'', full = ''a1b2c3d4'' \<rparr>], type = ''docs'',
               scope = Some ''api'', message = ''usage'', usernames = [], prs = [], body = [] \<rparr>"

section \<open>Auxiliary facts\<close>

subsection \<open>Captures of the title pattern\<close>

text \<open>The capture groups that occur in a pattern.\<close>

fun groupsOf :: "re \<Rightarrow> nat set" where
  "groupsOf (Seq r1 r2) = groupsOf r1 \<union> groupsOf r2"
| "groupsOf (Opt r) = groupsOf r"
| "groupsOf (Group i r) = insert i (groupsOf r)"
| "groupsOf _ = {}"

lemma rmatch_SeqE:
  assumes "x \<in> set (rmatch (Seq r1 r2) n st)"
  obtains st1 where "st1 \<in> set (rmatch r1 n st)" "x \<in> set (rmatch r2 n st1)"
  using assms by auto

lemma rmatch_keeps:
  "(s', c') \<in> set (rmatch r n (s, c)) \<Longrightarrow> i \<notin> groupsOf r \<Longrightarrow> c' i = c i"
proof (induction r arbitrary: s c s' c')
  case (Chr P)
  then show ?case by (auto split: list.splits if_splits)
next
  case (Seq r1 r2)
  from Seq.prems(1) obtain st1 where st1: "st1 \<in> set (rmatch r1 n (s, c))"
      "(s', c') \<in> set (rmatch r2 n st1)"
    by (rule rmatch_SeqE)
  obtain s1 c1 where [simp]: "st1 = (s1, c1)" by (cases st1)
  have "c1 i = c i" using Seq.IH(1) [of s1 c1 s c] st1(1) Seq.prems(2) by simp
  moreover have "c' i = c1 i" using Seq.IH(2) [of s' c' s1 c1] st1(2) Seq.prems(2) by simp
  ultimately show ?case by simp
next
  case (Opt r)
  then show ?case by auto
next
  case (Group j r)
  then show ?case by auto
qed (auto split: if_splits)

lemma take_takeWhile_all:
  assumes "k \<le> length (takeWhile P s)"
  shows "list_all P (take k s)"
proof -
  have "take k s = take k (take (length (takeWhile P s)) s)"
    using assms by (simp add: min_def)
  also have "\<dots> = take k (takeWhile P s)"
    by (simp add: takeWhile_eq_take [symmetric])
  finally have "set (take k s) \<subseteq> set (takeWhile P s)"
    by (simp add: set_take_subset)
  then show ?thesis
    by (auto simp: list_all_iff dest: set_takeWhileD)
qed

lemma captured_prefix:
  assumes "1 \<le> k" "k \<le> length (takeWhile P s)"
  shows "take (length s - length (drop k s)) s \<noteq> [] \<and>
         list_all P (take (length s - length (drop k s)) s)"
proof -
  have "k \<le> length s"
    using assms(2) length_takeWhile_le [of P s] by simp
  then have eq: "length s - length (drop k s) = k" by simp
  have "s \<noteq> []" using assms \<open>k \<le> length s\<close> by auto
  then have "take k s \<noteq> []" using assms(1) by (cases s) auto
  then show ?thesis
    using take_takeWhile_all [OF assms(2)] eq by simp
qed

lemma rmatch_Group_Plus:
  assumes "(s', c') \<in> set (rmatch (Group i (Plus P)) n (s, c))"
  shows "\<exists>w. c' i = Some w \<and> w \<noteq> [] \<and> list_all P w"
proof -
  from assms obtain k where k: "1 \<le> k" "k \<le> length (takeWhile P s)"
    and c': "c' = c(i \<mapsto> take (length s - length (drop k s)) s)"
    by auto
  show ?thesis using captured_prefix [OF k] c' by simp
qed

lemma rmatch_Group_LazyPlus:
  assumes "(s', c') \<in> set (rmatch (Group i (LazyPlus P)) n (s, c))"
  shows "\<exists>w. c' i = Some w \<and> w \<noteq> [] \<and> list_all P w"
proof -
  from assms obtain k where k: "1 \<le> k" "k \<le> length (takeWhile P s)"
    and c': "c' = c(i \<mapsto> take (length s - length (drop k s)) s)"
    by auto
  show ?thesis using captured_prefix [OF k] c' by simp
qed

lemma titleRegex_captures:
  assumes "(s', c') \<in> set (rmatch titleRegex n st)"
  shows "(\<exists>w. c' 1 = Some w \<and> w \<noteq> [] \<and> list_all isWord w) \<and>
         (\<exists>w. c' 3 = Some w \<and> w \<noteq> [] \<and> list_all isDot w)"
proof -
  define R6 where "R6 =
    Seq (Opt (Seq (Star isSpace) (Seq (lit (CHR ''(''))
            (Seq (Group 4 (Seq (lit (CHR ''@'')) (Plus notRParen))) (lit (CHR '')''))))))
    (Seq (Opt (Seq (Plus isSpace) (Seq (lit (CHR ''(''))
            (Seq (Group 5 (Seq (lit (CHR ''#'')) (Plus notRParen))) (lit (CHR '')''))))))
     Eol)"
  define R2 where "R2 =
    Seq (Opt (Seq (lit (CHR ''('')) (Seq (Group 2 (Plus notRParen)) (lit (CHR '')'')))))
    (Seq (lit (CHR '':''))
    (Seq (Plus isSpace)
    (Seq (Group 3 (LazyPlus isDot)) R6)))"
  have t: "titleRegex = Seq Bol (Seq (Group 1 (Plus isWord)) R2)"
    by (simp add: titleRegex_def R2_def R6_def)
  have g2: "1 \<notin> groupsOf R2" by (simp add: R2_def R6_def lit_def)
  have g6: "3 \<notin> groupsOf R6" by (simp add: R6_def lit_def)
  from assms obtain st0 where "(s', c') \<in> set (rmatch (Seq (Group 1 (Plus isWord)) R2) n st0)"
    unfolding t by (rule rmatch_SeqE)
  then obtain st1 where st1: "st1 \<in> set (rmatch (Group 1 (Plus isWord)) n st0)"
      "(s', c') \<in> set (rmatch R2 n st1)"
    by (rule rmatch_SeqE)
  obtain s0 c0 where [simp]: "st0 = (s0, c0)" by (cases st0)
  obtain s1 c1 where [simp]: "st1 = (s1, c1)" by (cases st1)
  have "\<exists>w. c1 1 = Some w \<and> w \<noteq> [] \<and> list_all isWord w"
    using st1(1) rmatch_Group_Plus [of s1 c1 1 isWord n s0 c0] by simp
  moreover have "c' 1 = c1 1"
    using rmatch_keeps [of s' c' R2 n s1 c1 1] st1(2) g2 by simp
  ultimately have one: "\<exists>w. c' 1 = Some w \<and> w \<noteq> [] \<and> list_all isWord w" by simp
  from st1(2) obtain st2 where
      "(s', c') \<in> set (rmatch (Seq (lit (CHR '':'')) (Seq (Plus isSpace) (Seq (Group 3 (LazyPlus isDot)) R6))) n st2)"
    unfolding R2_def by (rule rmatch_SeqE)
  then obtain st3 where
      "(s', c') \<in> set (rmatch (Seq (Plus isSpace) (Seq (Group 3 (LazyPlus isDot)) R6)) n st3)"
    by (rule rmatch_SeqE)
  then obtain st4 where
      "(s', c') \<in> set (rmatch (Seq (Group 3 (LazyPlus isDot)) R6) n st4)"
    by (rule rmatch_SeqE)
  then obtain st5 where st5: "st5 \<in> set (rmatch (Group 3 (LazyPlus isDot)) n st4)"
      "(s', c') \<in> set (rmatch R6 n st5)"
    by (rule rmatch_SeqE)
  obtain s4 c4 where [simp]: "st4 = (s4, c4)" by (cases st4)
  obtain s5 c5 where [simp]: "st5 = (s5, c5)" by (cases st5)
  have "\<exists>w. c5 3 = Some w \<and> w \<noteq> [] \<and> list_all isDot w"
    using st5(1) rmatch_Group_LazyPlus [of s5 c5 3 isDot n s4 c4] by simp
  moreover have "c' 3 = c5 3"
    using rmatch_keeps [of s' c' R6 n s5 c5 3] st5(2) g6 by simp
  ultimately have three: "\<exists>w. c' 3 = Some w \<and> w \<noteq> [] \<and> list_all isDot w" by simp
  show ?thesis using one three by simp
qed

lemma jsMatch_titleRegex:
  assumes "jsMatch titleRegex title = Some m"
  shows "(\<exists>w. m 1 = Some w \<and> w \<noteq> [] \<and> list_all isWord w) \<and>
         (\<exists>w. m 3 = Some w \<and> w \<noteq> [] \<and> list_all isDot w)"
proof -
  let ?all = "concat (map (\<lambda>i. rmatch titleRegex (length title) (drop i title, Map.empty))
                      [0 ..< Suc (length title)])"
  from assms obtain rest tl where "?all = (rest, m) # tl"
    by (auto simp: jsMatch_def split: list.splits)
  then have "(rest, m) \<in> set ?all" by simp
  then obtain i where "(rest, m) \<in> set (rmatch titleRegex (length title) (drop i title, Map.empty))"
    unfolding set_concat set_map by blast
  then show ?thesis by (rule titleRegex_captures)
qed

subsection \<open>The filter of the footer keeps the first record of each full hash\<close>

text \<open>
  \<open>keepFirst seen xs\<close> walks \<open>xs\<close> once and keeps an element when its full hash is not among
  the hashes \<open>seen\<close> so far. It is a second description of \<^const>\<open>uniqueLogs\<close>, used in the
  proofs only.
\<close>

fun keepFirst :: "string option set \<Rightarrow> LogItem list \<Rightarrow> LogItem list" where
  "keepFirst seen [] = []"
| "keepFirst seen (x # xs) =
     (if firstFull x \<in> seen then keepFirst seen xs
      else x # keepFirst (insert (firstFull x) seen) xs)"

lemma findIndexFrom_eq:
  "findIndexFrom i p xs =
     (if list_ex p xs then int (i + length (takeWhile (\<lambda>x. \<not> p x) xs)) else - 1)"
  by (induction xs arbitrary: i) auto

lemma findIndex_at:
  assumes "p x"
  shows "(int (length pre) = findIndex p (pre @ x # xs)) = (\<forall>y\<in>set pre. \<not> p y)"
proof (cases "\<forall>y\<in>set pre. \<not> p y")
  case True
  then have "takeWhile (\<lambda>x. \<not> p x) (pre @ x # xs) = pre @ takeWhile (\<lambda>x. \<not> p x) (x # xs)"
    by (intro takeWhile_append2) simp
  then show ?thesis
    using True assms by (simp add: findIndex_def findIndexFrom_eq)
next
  case False
  then obtain y where y: "y \<in> set pre" "p y" by blast
  then have tw: "takeWhile (\<lambda>x. \<not> p x) (pre @ x # xs) = takeWhile (\<lambda>x. \<not> p x) pre"
    by (intro takeWhile_append1 [of y]) simp_all
  have "takeWhile (\<lambda>x. \<not> p x) pre \<noteq> pre"
    using y by auto
  then have "length (takeWhile (\<lambda>x. \<not> p x) pre) \<noteq> length pre"
    by (metis takeWhile_eq_take take_all order_refl)
  then show ?thesis
    using False assms tw by (simp add: findIndex_def findIndexFrom_eq)
qed

lemma uniqueLogs_aux:
  "map snd (filter (\<lambda>(index, item). int index = findIndex (\<lambda>t. firstFull t = firstFull item) (pre @ xs))
                   (enumerate (length pre) xs))
   = keepFirst (firstFull ` set pre) xs"
proof (induction xs arbitrary: pre)
  case Nil
  then show ?case by simp
next
  case (Cons x xs)
  have step: "(int (length pre) = findIndex (\<lambda>t. firstFull t = firstFull x) (pre @ x # xs))
        = (firstFull x \<notin> firstFull ` set pre)"
  proof -
    have "(\<forall>y\<in>set pre. firstFull y \<noteq> firstFull x) = (firstFull x \<notin> firstFull ` set pre)"
      by (metis image_iff)
    then show ?thesis
      using findIndex_at [of "\<lambda>t. firstFull t = firstFull x" x pre xs] by simp
  qed
  have IH: "map snd (filter (\<lambda>(index, item). int index = findIndex (\<lambda>t. firstFull t = firstFull item) (pre @ x # xs))
                   (enumerate (Suc (length pre)) xs))
   = keepFirst (firstFull ` set (pre @ [x])) xs"
    using Cons.IH [of "pre @ [x]"] by simp
  show ?case
  proof (cases "firstFull x \<in> firstFull ` set pre")
    case True
    then have "insert (firstFull x) (firstFull ` set pre) = firstFull ` set pre" by auto
    then show ?thesis using True step IH by simp
  next
    case False
    then show ?thesis using step IH by simp
  qed
qed

lemma uniqueLogs_keepFirst: "uniqueLogs xs = keepFirst {} xs"
  using uniqueLogs_aux [of "[]" xs] by (simp add: uniqueLogs_def)

lemma keepFirst_filter:
  "filter (\<lambda>u. firstFull u = k) (keepFirst seen xs) =
     (if k \<in> seen then []
      else case find (\<lambda>t. firstFull t = k) xs of None \<Rightarrow> [] | Some y \<Rightarrow> [y])"
  by (induction xs arbitrary: seen) auto

lemma keepFirst_subset: "set (keepFirst seen xs) \<subseteq> set xs"
  by (induction xs arbitrary: seen) auto

lemma keepFirst_nil: "(keepFirst {} xs = []) = (xs = [])"
  by (cases xs) auto

lemma keepFirst_distinct:
  "distinct (map firstFull (keepFirst seen xs)) \<and>
   (\<forall>u\<in>set (keepFirst seen xs). firstFull u \<notin> seen)"
proof (induction xs arbitrary: seen)
  case Nil
  then show ?case by simp
next
  case (Cons x xs)
  show ?case
  proof (cases "firstFull x \<in> seen")
    case True
    then show ?thesis using Cons.IH [of seen] by simp
  next
    case False
    then show ?thesis using Cons.IH [of "insert (firstFull x) seen"] by auto
  qed
qed

lemma uniqueOtherLogs_filter:
  "filter (\<lambda>u. firstFull u = k) (uniqueOtherLogs logs) =
     (case find (\<lambda>t. firstFull t = k) (allOtherLogs logs) of None \<Rightarrow> [] | Some y \<Rightarrow> [y])"
  by (simp add: uniqueOtherLogs_def uniqueLogs_keepFirst keepFirst_filter)

lemma uniqueOtherLogs_member:
  "(r \<in> set (uniqueOtherLogs logs))
     = (find (\<lambda>t. firstFull t = firstFull r) (allOtherLogs logs) = Some r)"
proof -
  have "(r \<in> set (uniqueOtherLogs logs))
          = (r \<in> set (filter (\<lambda>u. firstFull u = firstFull r) (uniqueOtherLogs logs)))"
    by simp
  also have "\<dots> = (find (\<lambda>t. firstFull t = firstFull r) (allOtherLogs logs) = Some r)"
    unfolding uniqueOtherLogs_filter by (auto split: option.splits)
  finally show ?thesis .
qed

lemma find_first_exists:
  "x \<in> set xs \<Longrightarrow> P x \<Longrightarrow> \<exists>y. find P xs = Some y \<and> y \<in> set xs \<and> P y"
  by (induction xs) auto

lemma find_append_left:
  "find P xs = Some y \<Longrightarrow> find P (xs @ ys) = Some y"
  by (induction xs) (auto split: if_splits)

lemma allOtherLogs_subset: "set (allOtherLogs logs) \<subseteq> set logs"
  by (auto simp: allOtherLogs_def)

lemma allOtherLogs_types:
  "x \<in> set (allOtherLogs logs) \<Longrightarrow>
     type x \<in> set [''feat'', ''impr'', ''fix'', ''style'', ''docs'', ''refactor'', ''perf'',
                     ''ci'', ''test'', ''build'', ''chore'']"
  by (auto simp: allOtherLogs_def)

lemma uniqueOtherLogs_subset: "set (uniqueOtherLogs logs) \<subseteq> set (allOtherLogs logs)"
  using keepFirst_subset [of "{}" "allOtherLogs logs"]
  by (simp add: uniqueOtherLogs_def uniqueLogs_keepFirst)

subsection \<open>What the parser stores\<close>

text \<open>
  The shape of every record \<^const>\<open>convertLine\<close> appends: one hash pair, a type made of word
  characters, a message; none of the three is empty.
\<close>

definition parsedItem :: "LogItem \<Rightarrow> bool" where
  "parsedItem r = (length (hashes r) = 1 \<and> type r \<noteq> [] \<and> list_all isWord (type r)
                   \<and> message r \<noteq> [])"

lemma convertLine_cases:
  assumes "convertLine (log, cs) line = Inr (log', cs')"
  shows "(log' = log \<and> cs' = cs) \<or>
         (\<exists>r. log' = log @ [r] \<and> parsedItem r \<and> (cs' = cs \<or> (\<exists>c. cs' = cs @ [c])))"
proof (cases "line = [] \<or> line = [CR] \<or> line = [LF]")
  case True
  then show ?thesis using assms by (auto simp: convertLine_def)
next
  case False
  show ?thesis
  proof (cases "map trim (split line logDelimiter)")
    case Nil
    then show ?thesis using assms False by (simp add: convertLine_def)
  next
    case (Cons hash fs1)
    show ?thesis
    proof (cases fs1)
      case Nil
      then show ?thesis using assms False Cons by (simp add: convertLine_def)
    next
      case c2: (Cons shortHash fs2)
      show ?thesis
      proof (cases fs2)
        case Nil
        then show ?thesis using assms False Cons c2 by (simp add: convertLine_def)
      next
        case c3: (Cons title rest)
        show ?thesis
        proof (cases "jsMatch titleRegex title")
          case None
          then show ?thesis using assms False Cons c2 c3 by (simp add: convertLine_def)
        next
          case (Some m)
          from jsMatch_titleRegex [OF Some] obtain w1 w3 where
            w: "m 1 = Some w1" "w1 \<noteq> []" "list_all isWord w1" "m 3 = Some w3" "w3 \<noteq> []"
            by blast
          show ?thesis
            using assms False Cons c2 c3 Some w
            by (auto simp: convertLine_def Let_def parsedItem_def split: if_splits)
        qed
      qed
    qed
  qed
qed

lemma convertLoop_inv:
  assumes "convertLoop (log, cs) lines = Inr (log', cs')" "list_all parsedItem log"
  shows "list_all parsedItem log' \<and> length log \<le> length log' \<and>
         (length log' = length log \<longrightarrow> cs' = cs)"
  using assms
proof (induction lines arbitrary: log cs)
  case Nil
  then show ?case by simp
next
  case (Cons line lines)
  from Cons.prems(1) obtain log1 cs1 where
    line: "convertLine (log, cs) line = Inr (log1, cs1)" and
    rest: "convertLoop (log1, cs1) lines = Inr (log', cs')"
    by (auto split: sum.splits)
  from convertLine_cases [OF line] Cons.prems(2)
  have p1: "list_all parsedItem log1" and
    l1: "(log1 = log \<and> cs1 = cs) \<or> length log1 = Suc (length log)"
    by auto
  from Cons.IH [OF rest p1] l1 show ?case by auto
qed

lemma convertStringToLog_parsed:
  assumes "convertStringToLog lines = Inr (log, cs)"
  shows "list_all parsedItem log"
  using convertLoop_inv [of "[]" "[]" lines log cs] assms
  by (simp add: convertStringToLog_def)

lemma convertStringToLog_no_records:
  assumes "convertStringToLog lines = Inr ([], cs)"
  shows "cs = []"
  using convertLoop_inv [of "[]" "[]" lines "[]" cs] assms
  by (simp add: convertStringToLog_def)

subsection \<open>The loop of \<^verbatim>\<open>buildItems\<close>\<close>

lemma buildItemsLoop_eq:
  "buildItemsLoop owner repo m ret items = ret @ concat (map (itemText owner repo m) items)"
  by (induction items arbitrary: ret) simp_all

lemma buildItems_eq:
  "buildItems owner repo items m = concat (map (itemText owner repo m) items)"
  by (simp add: buildItems_def buildItemsLoop_eq)

lemma buildSection_eq:
  "buildSection owner repo ty logs =
     (if sectionItems ty logs = [] then []
      else ''### '' @ titles ty @ [LF, LF]
           @ concat (map (itemText owner repo False) (sectionItems ty logs)))"
  by (simp add: buildSection_def buildItems_eq Let_def)

lemma uniqueOtherLogs_nil: "(uniqueOtherLogs logs = []) = (allOtherLogs logs = [])"
  by (simp add: uniqueOtherLogs_def uniqueLogs_keepFirst keepFirst_nil)

lemma buildFooter_eq:
  "buildFooter owner repo logs =
     (if list_ex (\<lambda>item. hashes item = []) (allOtherLogs logs) then Inl TypeError
      else Inr (if allOtherLogs logs = [] then []
                else footerIntro
                     @ concat (map (itemText owner repo True) (uniqueOtherLogs logs))))"
  using uniqueOtherLogs_nil [of logs] by (simp add: buildFooter_def buildItems_eq)

lemma assemble_nil: "assemble owner repo [] [] = Inr []"
  by (simp add: assemble_def contributorCount_def buildSection_def sectionItems_def
      buildFooter_def allOtherLogs_def uniqueOtherLogs_def uniqueLogs_def titleKeys_def)

lemma specPrNumber_eq: "specPrNumber pr = replaceHash pr"
  unfolding specPrNumber_def replaceHash_def
  by (induction pr) auto

lemma getPrLink_spec: "getPrLink owner repo pr = specPrLink owner repo pr"
  by (simp add: getPrLink_def Let_def specPrLink_def specRepoUrl_def specPrNumber_eq)

lemma getCommitLink_spec:
  "getCommitLink owner repo (short h) (full h) = specCommitLink owner repo h"
  by (simp add: getCommitLink_def specCommitLink_def specRepoUrl_def)

lemma link_functions_spec:
  "(\<lambda>h. getCommitLink owner repo (short h) (full h)) = specCommitLink owner repo"
  "getPrLink owner repo = specPrLink owner repo"
  by (rule ext, rule getCommitLink_spec) (rule ext, rule getPrLink_spec)

lemma itemText_specLine: "itemText owner repo m item = specLine owner repo m item"
  by (cases "scope item")
     (simp_all add: itemText_def specLine_def scopeText_def specPrefix_def usernamesText_def
        prText_def hashText_def specOptionalGroup_def specGroup_def link_functions_spec)

subsection \<open>When the parser and the builder return\<close>

lemma convertLine_returns:
  assumes "line = [] \<or> line = [CR] \<or> line = [LF] \<or> 3 \<le> length (split line logDelimiter)"
  shows "\<exists>st'. convertLine st line = Inr st'"
proof (cases "line = [] \<or> line = [CR] \<or> line = [LF]")
  case True
  then show ?thesis by (cases st) (auto simp: convertLine_def)
next
  case False
  then have "3 \<le> length (map trim (split line logDelimiter))"
    using assms by simp
  then obtain hash shortHash title rest where
    f: "map trim (split line logDelimiter) = hash # shortHash # title # rest"
    by (cases "map trim (split line logDelimiter)" rule: list.exhaust;
        simp; rename_tac a as; case_tac as; simp; rename_tac b bs; case_tac bs; simp)
  show ?thesis
    using False f
    by (cases st; cases "jsMatch titleRegex title") (simp_all add: convertLine_def Let_def)
qed

lemma convertLoop_returns:
  assumes "list_all (\<lambda>line. line = [] \<or> line = [CR] \<or> line = [LF]
                        \<or> 3 \<le> length (split line logDelimiter)) lines"
  shows "\<exists>st'. convertLoop st lines = Inr st'"
  using assms
proof (induction lines arbitrary: st)
  case Nil
  then show ?case by simp
next
  case (Cons line lines)
  then obtain st1 where "convertLine st line = Inr st1"
    using convertLine_returns [of line st] by auto
  then show ?case using Cons.IH [of st1] Cons.prems by simp
qed

lemma assemble_returns:
  assumes "list_all parsedItem log"
  shows "\<exists>out. assemble owner repo log committers = Inr out"
proof -
  have "hashes item \<noteq> []" if "item \<in> set (allOtherLogs log)" for item
  proof -
    have "item \<in> set log" using that allOtherLogs_subset [of log] by blast
    then have "length (hashes item) = 1"
      using assms by (simp add: list_all_iff parsedItem_def)
    then show ?thesis by auto
  qed
  then have "\<not> list_ex (\<lambda>item. hashes item = []) (allOtherLogs log)"
    by (auto simp: list_ex_iff)
  then show ?thesis
    by (simp add: assemble_def buildFooter_eq Let_def)
qed

lemma buildChangelog_returns:
  assumes "list_all (\<lambda>line. line = [] \<or> line = [CR] \<or> line = [LF]
                        \<or> 3 \<le> length (split line logDelimiter))
             (split logString lineDelimiter)"
  shows "\<exists>out. buildChangelog owner repo logString = Inr out"
proof -
  obtain log cs where p: "convertStringToLog (split logString lineDelimiter) = Inr (log, cs)"
    using convertLoop_returns [OF assms, of "([], [])"]
    by (auto simp: convertStringToLog_def)
  then have "list_all parsedItem log" by (rule convertStringToLog_parsed)
  then show ?thesis
    using p assemble_returns [of log owner repo cs] by (simp add: buildChangelog_def)
qed

subsection \<open>A log without records\<close>

text \<open>
  When the parser returns an empty list of records, the list of committers is empty too,
  and \<^verbatim>\<open>buildChangelog\<close> returns the empty string; the empty log is such a case.
\<close>

lemma buildChangelog_no_records:
  "convertStringToLog (split logString lineDelimiter) = Inr ([], committers)
     \<Longrightarrow> buildChangelog owner repo logString = Inr []"
proof -
  assume p: "convertStringToLog (split logString lineDelimiter) = Inr ([], committers)"
  then have "committers = []" by (rule convertStringToLog_no_records)
  then show "buildChangelog owner repo logString = Inr []"
    using p by (simp add: buildChangelog_def assemble_nil)
qed

lemma buildChangelog_empty_log: "buildChangelog owner repo [] = Inr []"
proof -
  have "split [] lineDelimiter = [[]]"
    by (simp add: split_def lineDelimiter_def)
  moreover have "convertStringToLog [[]] = Inr ([], [])"
    by (simp add: convertStringToLog_def convertLine_def)
  ultimately show ?thesis
    by (simp add: buildChangelog_def assemble_nil)
qed

subsection \<open>Records of other types do not reach the filters\<close>

lemma filter_filter_implied:
  "(\<And>x. P x \<Longrightarrow> Q x) \<Longrightarrow> filter P (filter Q xs) = filter P xs"
  by (induction xs) auto

lemma sectionItems_recognized:
  "sectionItems ty (filter (\<lambda>x. type x \<in> set CommitTypes) logs) = sectionItems ty logs"
  unfolding sectionItems_def
  by (rule filter_filter_implied) (cases ty; simp add: CommitTypes_def)

lemma allOtherLogs_recognized:
  "allOtherLogs (filter (\<lambda>x. type x \<in> set CommitTypes) logs) = allOtherLogs logs"
proof -
  let ?Q = "\<lambda>x. type x \<in> set CommitTypes"
  have f: "filter (\<lambda>item. type item = t) (filter ?Q logs) = filter (\<lambda>item. type item = t) logs"
    if "t \<in> set CommitTypes" for t
    using that by (intro filter_filter_implied) simp
  have g: "filter (\<lambda>item. type item = t \<and> strIncludes (body item) ''!nuf'') (filter ?Q logs)
           = filter (\<lambda>item. type item = t \<and> strIncludes (body item) ''!nuf'') logs"
    if "t \<in> set CommitTypes" for t
    using that by (intro filter_filter_implied) simp
  have m: "''feat'' \<in> set CommitTypes" "''impr'' \<in> set CommitTypes"
    "''fix'' \<in> set CommitTypes" "''style'' \<in> set CommitTypes"
    "''docs'' \<in> set CommitTypes" "''refactor'' \<in> set CommitTypes"
    "''perf'' \<in> set CommitTypes" "''ci'' \<in> set CommitTypes"
    "''test'' \<in> set CommitTypes" "''build'' \<in> set CommitTypes"
    "''chore'' \<in> set CommitTypes"
    by (simp_all add: CommitTypes_def)
  show ?thesis
    unfolding allOtherLogs_def Let_def
    by (simp only: f [OF m(1)] f [OF m(2)] f [OF m(3)] f [OF m(4)] f [OF m(5)] f [OF m(6)]
        f [OF m(7)] f [OF m(8)] f [OF m(9)] f [OF m(10)] f [OF m(11)]
        g [OF m(1)] g [OF m(2)] g [OF m(3)])
qed

subsection \<open>The sample logs, evaluated\<close>

lemma fooLog_parse:
  "convertStringToLog (split fooLog lineDelimiter) = Inr ([fooItem], [''alice''])"
  by code_simp

lemma fooLine_fields:
  "map trim (split fooLine logDelimiter) = [''a1b2c3d4'', ''a1b2'', ''foo: bar'', [], ''alice'']"
  by code_simp

lemma fooLine_type:
  "Option.bind (jsMatch titleRegex ''foo: bar'') (\<lambda>m. m 1) = Some ''foo''"
  by code_simp

lemma mergeLine_fields:
  "map trim (split mergeLine logDelimiter)
     = [''a1b2c3d4'', ''a1b2'', ''Merge branch dev'', [], ''alice'']"
  by code_simp

lemma mergeLine_no_match: "jsMatch titleRegex ''Merge branch dev'' = None"
  by code_simp

lemma fixLog_parse:
  "convertStringToLog (split fixLog lineDelimiter) = Inr ([fixItem], [''alice''])"
  by code_simp

lemma fixLog_assemble:
  "assemble ''o'' ''r'' [fixItem] [''alice'']
     = Inr (''### Bug Fixes'' @ [LF, LF]
            @ ''- crash ([a1b2](https://github.com/o/r/commit/a1b2c3d4))'' @ [LF])"
  by code_simp

lemma fixLog_no_Fixes_heading:
  "\<not> strIncludes (''### Bug Fixes'' @ [LF, LF]
            @ ''- crash ([a1b2](https://github.com/o/r/commit/a1b2c3d4))'' @ [LF]) ''### Fixes''"
  by code_simp

lemma aliceLog_parse:
  "convertStringToLog (split aliceLog lineDelimiter) = Inr ([aliceItem1, aliceItem2], [''alice''])"
  by code_simp

lemma aliceLog_assemble:
  "assemble ''o'' ''r'' [aliceItem1, aliceItem2] [''alice'']
     = Inr (header @ [LF, LF] @ ''### Bug Fixes'' @ [LF, LF]
            @ ''- one (@alice) ([a1b2](https://github.com/o/r/commit/a1b2c3d4))'' @ [LF]
            @ ''- two (@alice) ([e5f6](https://github.com/o/r/commit/e5f6a7b8))'' @ [LF])"
  by code_simp

lemma aliceLog_count:
  "contributorCount [aliceItem1, aliceItem2] = 2
   \<and> remdups (concat (map usernames [aliceItem1, aliceItem2])) = [''@alice'']"
  by code_simp

lemma dupLog_parse:
  "convertStringToLog (split dupLog lineDelimiter) = Inr ([dupItem1, dupItem2], [''alice''])"
  by code_simp

lemma dupLog_assemble:
  "assemble ''o'' ''r'' [dupItem1, dupItem2] [''alice'']
     = Inr ([LF] @ footerIntro
            @ ''- **fix:** one ([a1b2](https://github.com/o/r/commit/a1b2c3d4))'' @ [LF])"
  by code_simp

lemma dupLog_unique: "uniqueOtherLogs [dupItem1, dupItem2] = [dupItem1]"
  by code_simp

lemma dupItems_differ: "dupItem2 \<noteq> dupItem1"
  by (simp add: dupItem1_def dupItem2_def)

lemma docsChoreLog_parse:
  "convertStringToLog (split docsChoreLog lineDelimiter) = Inr ([choreItem, docsItem], [''alice''])"
  by code_simp

lemma docsChoreLog_assemble:
  "assemble ''o'' ''r'' [choreItem, docsItem] [''alice'']
     = Inr ([LF] @ footerIntro
            @ ''- **docs(api):** usage ([a1b2](https://github.com/o/r/commit/a1b2c3d4))'' @ [LF])"
  by code_simp

lemma docsChoreLog_unique:
  "allOtherLogs [choreItem, docsItem] = [docsItem, choreItem]
   \<and> uniqueOtherLogs [choreItem, docsItem] = [docsItem]"
  by code_simp

section \<open>The claims\<close>

text \<open>
  C1, as claimed: every record of a user-facing type whose body holds the marker
  \<^verbatim>\<open>!nuf\<close> is rendered in the footer. The footer keeps one record for each full hash: of
  two marked \<^verbatim>\<open>fix\<close> entries with the same full hash the second one is not among the
  records the footer renders, and its message is nowhere in the output.
\<close>

theorem C1_counterexample:
  "convertStringToLog (split dupLog lineDelimiter) = Inr ([dupItem1, dupItem2], [''alice''])
   \<and> type dupItem2 = ''fix'' \<and> strIncludes (body dupItem2) ''!nuf''
   \<and> uniqueOtherLogs [dupItem1, dupItem2] = [dupItem1]
   \<and> dupItem2 \<notin> set (uniqueOtherLogs [dupItem1, dupItem2])
   \<and> buildChangelog ''o'' ''r'' dupLog
       = Inr ([LF] @ footerIntro
              @ ''- **fix:** one ([a1b2](https://github.com/o/r/commit/a1b2c3d4))'' @ [LF])"
proof -
  have "strIncludes (body dupItem2) ''!nuf''"
    by (simp add: dupItem2_def startsWith_def)
  then show ?thesis
    using dupLog_parse dupLog_assemble dupLog_unique dupItems_differ
    by (simp add: buildChangelog_def) (simp add: dupItem2_def)
qed

text \<open>
  C1, amended: a record of a user-facing type (\<^verbatim>\<open>feat\<close>, \<^verbatim>\<open>impr\<close>, \<^verbatim>\<open>fix\<close>) whose body
  holds the marker \<^verbatim>\<open>!nuf\<close> is in none of the three category sections and is among the
  records the footer collects; the footer renders it exactly when it is the first of the
  collected records with its full hash (a later record with the same full hash is dropped
  by the deduplication of the footer). Conversely a record of a user-facing type without
  the marker is rendered in the section of its type, in no other section and not in the
  footer. The last two conjuncts say that the sections and the footer are the lines of
  these lists of records.
\<close>

theorem C1_marker_law:
  "(r \<in> set logs \<and> type r = keyName ty \<and> strIncludes (body r) ''!nuf'' \<longrightarrow>
      r \<notin> set (sectionItems ty' logs)
      \<and> r \<in> set (allOtherLogs logs)
      \<and> (r \<in> set (uniqueOtherLogs logs))
          = (find (\<lambda>t. firstFull t = firstFull r) (allOtherLogs logs) = Some r))
   \<and> (r \<in> set logs \<and> type r = keyName ty \<and> \<not> strIncludes (body r) ''!nuf'' \<longrightarrow>
      r \<in> set (sectionItems ty logs)
      \<and> (ty' \<noteq> ty \<longrightarrow> r \<notin> set (sectionItems ty' logs))
      \<and> r \<notin> set (allOtherLogs logs)
      \<and> r \<notin> set (uniqueOtherLogs logs))
   \<and> buildSection owner repo ty logs
       = (if sectionItems ty logs = [] then []
          else ''### '' @ titles ty @ [LF, LF]
               @ concat (map (itemText owner repo False) (sectionItems ty logs)))
   \<and> buildFooter owner repo logs
       = (if list_ex (\<lambda>item. hashes item = []) (allOtherLogs logs) then Inl TypeError
          else Inr (if allOtherLogs logs = [] then []
                    else footerIntro
                         @ concat (map (itemText owner repo True) (uniqueOtherLogs logs))))"
proof (intro conjI impI)
  assume a: "r \<in> set logs \<and> type r = keyName ty \<and> strIncludes (body r) ''!nuf''"
  show "r \<notin> set (sectionItems ty' logs)"
    using a by (simp add: sectionItems_def)
  show "r \<in> set (allOtherLogs logs)"
    using a by (cases ty) (simp_all add: allOtherLogs_def)
  show "(r \<in> set (uniqueOtherLogs logs))
          = (find (\<lambda>t. firstFull t = firstFull r) (allOtherLogs logs) = Some r)"
    by (rule uniqueOtherLogs_member)
next
  assume a: "r \<in> set logs \<and> type r = keyName ty \<and> \<not> strIncludes (body r) ''!nuf''"
  show "r \<in> set (sectionItems ty logs)"
    using a by (simp add: sectionItems_def)
  show n: "r \<notin> set (allOtherLogs logs)"
    using a by (cases ty) (simp_all add: allOtherLogs_def)
  show "r \<notin> set (uniqueOtherLogs logs)"
    using n uniqueOtherLogs_subset [of logs] by blast
  assume "ty' \<noteq> ty"
  then show "r \<notin> set (sectionItems ty' logs)"
    using a by (cases ty; cases ty') (simp_all add: sectionItems_def)
next
  show "buildSection owner repo ty logs
       = (if sectionItems ty logs = [] then []
          else ''### '' @ titles ty @ [LF, LF]
               @ concat (map (itemText owner repo False) (sectionItems ty logs)))"
    by (rule buildSection_eq)
next
  show "buildFooter owner repo logs
       = (if list_ex (\<lambda>item. hashes item = []) (allOtherLogs logs) then Inl TypeError
          else Inr (if allOtherLogs logs = [] then []
                    else footerIntro
                         @ concat (map (itemText owner repo True) (uniqueOtherLogs logs))))"
    by (rule buildFooter_eq)
qed

theorem C1_witness:
  "dupItem1 \<in> set [dupItem1, dupItem2] \<and> type dupItem1 = keyName Fix
   \<and> strIncludes (body dupItem1) ''!nuf''
   \<and> dupItem1 \<notin> set (sectionItems Fix [dupItem1, dupItem2])
   \<and> dupItem1 \<in> set (allOtherLogs [dupItem1, dupItem2])
   \<and> dupItem1 \<in> set (uniqueOtherLogs [dupItem1, dupItem2])
   \<and> fixItem \<in> set [fixItem] \<and> type fixItem = keyName Fix
   \<and> \<not> strIncludes (body fixItem) ''!nuf''
   \<and> fixItem \<in> set (sectionItems Fix [fixItem])
   \<and> fixItem \<notin> set (sectionItems Feat [fixItem])
   \<and> fixItem \<notin> set (allOtherLogs [fixItem])
   \<and> fixItem \<notin> set (uniqueOtherLogs [fixItem])"
proof -
  have m: "dupItem1 \<in> set [dupItem1, dupItem2] \<and> type dupItem1 = keyName Fix
      \<and> strIncludes (body dupItem1) ''!nuf''"
    by (simp add: dupItem1_def startsWith_def)
  have u: "fixItem \<in> set [fixItem] \<and> type fixItem = keyName Fix
      \<and> \<not> strIncludes (body fixItem) ''!nuf''"
    by (simp add: fixItem_def)
  have f: "Feat \<noteq> Fix" by simp
  show ?thesis
    using m u f dupLog_unique
      C1_marker_law [of dupItem1 "[dupItem1, dupItem2]" Fix Fix "''o''" "''r''"]
      C1_marker_law [of fixItem "[fixItem]" Fix Feat "''o''" "''r''"]
    by simp
qed

text \<open>
  C2. The footer concatenates the records it collects in the order \<^verbatim>\<open>feat\<close> (marked),
  \<^verbatim>\<open>impr\<close> (marked), \<^verbatim>\<open>fix\<close> (marked), \<^verbatim>\<open>style\<close>, \<^verbatim>\<open>docs\<close>, \<^verbatim>\<open>refactor\<close>, \<^verbatim>\<open>perf\<close>,
  \<^verbatim>\<open>ci\<close>, \<^verbatim>\<open>test\<close>, \<^verbatim>\<open>build\<close>, \<^verbatim>\<open>chore\<close>, and renders one line for each record that
  survives the deduplication. The survivors have pairwise different full hashes, and for
  every collected record the survivors with its full hash are exactly one record: the
  first record with that hash in the concatenation, whole, so the line carries its type,
  scope, message, user names and pull requests. In particular, when a \<^verbatim>\<open>docs\<close> record and
  a \<^verbatim>\<open>chore\<close> record are the records of a full hash, the survivor is the \<^verbatim>\<open>docs\<close> record
  and its line starts with \<^verbatim>\<open>- **docs\<close>.
\<close>

theorem C2_footer_first_writer_wins:
  "allOtherLogs logs
     = filter (\<lambda>item. type item = ''feat'' \<and> strIncludes (body item) ''!nuf'') logs
       @ filter (\<lambda>item. type item = ''impr'' \<and> strIncludes (body item) ''!nuf'') logs
       @ filter (\<lambda>item. type item = ''fix'' \<and> strIncludes (body item) ''!nuf'') logs
       @ filter (\<lambda>item. type item = ''style'') logs
       @ filter (\<lambda>item. type item = ''docs'') logs
       @ filter (\<lambda>item. type item = ''refactor'') logs
       @ filter (\<lambda>item. type item = ''perf'') logs
       @ filter (\<lambda>item. type item = ''ci'') logs
       @ filter (\<lambda>item. type item = ''test'') logs
       @ filter (\<lambda>item. type item = ''build'') logs
       @ filter (\<lambda>item. type item = ''chore'') logs
   \<and> (list_all (\<lambda>item. hashes item \<noteq> []) logs \<longrightarrow>
        buildFooter owner repo logs
          = Inr (if allOtherLogs logs = [] then []
                 else footerIntro
                      @ concat (map (itemText owner repo True) (uniqueOtherLogs logs))))
   \<and> distinct (map firstFull (uniqueOtherLogs logs))
   \<and> (\<forall>x\<in>set (allOtherLogs logs).
        \<exists>y. find (\<lambda>t. firstFull t = firstFull x) (allOtherLogs logs) = Some y
          \<and> filter (\<lambda>u. firstFull u = firstFull x) (uniqueOtherLogs logs) = [y])
   \<and> (d \<in> set logs \<and> c \<in> set logs \<and> type d = ''docs'' \<and> type c = ''chore''
        \<and> firstFull c = firstFull d
        \<and> (\<forall>x\<in>set logs. firstFull x = firstFull d \<longrightarrow> x = d \<or> x = c) \<longrightarrow>
        filter (\<lambda>u. firstFull u = firstFull d) (uniqueOtherLogs logs) = [d]
        \<and> take 8 (itemText owner repo True d) = ''- **docs'')"
proof (intro conjI impI ballI)
  show "allOtherLogs logs
     = filter (\<lambda>item. type item = ''feat'' \<and> strIncludes (body item) ''!nuf'') logs
       @ filter (\<lambda>item. type item = ''impr'' \<and> strIncludes (body item) ''!nuf'') logs
       @ filter (\<lambda>item. type item = ''fix'' \<and> strIncludes (body item) ''!nuf'') logs
       @ filter (\<lambda>item. type item = ''style'') logs
       @ filter (\<lambda>item. type item = ''docs'') logs
       @ filter (\<lambda>item. type item = ''refactor'') logs
       @ filter (\<lambda>item. type item = ''perf'') logs
       @ filter (\<lambda>item. type item = ''ci'') logs
       @ filter (\<lambda>item. type item = ''test'') logs
       @ filter (\<lambda>item. type item = ''build'') logs
       @ filter (\<lambda>item. type item = ''chore'') logs"
    by (simp add: allOtherLogs_def)
next
  assume "list_all (\<lambda>item. hashes item \<noteq> []) logs"
  then have "\<not> list_ex (\<lambda>item. hashes item = []) (allOtherLogs logs)"
    using allOtherLogs_subset [of logs] by (auto simp: list_all_iff list_ex_iff)
  then show "buildFooter owner repo logs
          = Inr (if allOtherLogs logs = [] then []
                 else footerIntro
                      @ concat (map (itemText owner repo True) (uniqueOtherLogs logs)))"
    by (simp add: buildFooter_eq)
next
  show "distinct (map firstFull (uniqueOtherLogs logs))"
    using keepFirst_distinct [of "{}" "allOtherLogs logs"]
    by (simp add: uniqueOtherLogs_def uniqueLogs_keepFirst)
next
  fix x assume "x \<in> set (allOtherLogs logs)"
  then obtain y where "find (\<lambda>t. firstFull t = firstFull x) (allOtherLogs logs) = Some y"
    using find_first_exists [of x "allOtherLogs logs" "\<lambda>t. firstFull t = firstFull x"]
    by auto
  then show "\<exists>y. find (\<lambda>t. firstFull t = firstFull x) (allOtherLogs logs) = Some y
          \<and> filter (\<lambda>u. firstFull u = firstFull x) (uniqueOtherLogs logs) = [y]"
    by (simp add: uniqueOtherLogs_filter)
next
  assume h: "d \<in> set logs \<and> c \<in> set logs \<and> type d = ''docs'' \<and> type c = ''chore''
        \<and> firstFull c = firstFull d
        \<and> (\<forall>x\<in>set logs. firstFull x = firstFull d \<longrightarrow> x = d \<or> x = c)"
  define P where "P = (\<lambda>t. firstFull t = firstFull d)"
  define pre where "pre
     = filter (\<lambda>item. type item = ''feat'' \<and> strIncludes (body item) ''!nuf'') logs
       @ filter (\<lambda>item. type item = ''impr'' \<and> strIncludes (body item) ''!nuf'') logs
       @ filter (\<lambda>item. type item = ''fix'' \<and> strIncludes (body item) ''!nuf'') logs
       @ filter (\<lambda>item. type item = ''style'') logs
       @ filter (\<lambda>item. type item = ''docs'') logs
       @ filter (\<lambda>item. type item = ''refactor'') logs
       @ filter (\<lambda>item. type item = ''perf'') logs
       @ filter (\<lambda>item. type item = ''ci'') logs
       @ filter (\<lambda>item. type item = ''test'') logs
       @ filter (\<lambda>item. type item = ''build'') logs"
  have sp: "allOtherLogs logs = pre @ filter (\<lambda>item. type item = ''chore'') logs"
    by (simp add: allOtherLogs_def pre_def)
  have "d \<in> set pre" using h by (simp add: pre_def)
  then obtain y where y: "find P pre = Some y" "y \<in> set pre" "P y"
    using find_first_exists [of d pre P] by (auto simp: P_def)
  have "y \<in> set logs" using y(2) by (auto simp: pre_def)
  then have "y = d \<or> y = c" using h y(3) by (auto simp: P_def)
  moreover have "type y \<noteq> ''chore''" using y(2) by (auto simp: pre_def)
  ultimately have "y = d" using h by auto
  then have "find P (allOtherLogs logs) = Some d"
    using y(1) find_append_left [of P pre y] sp by simp
  then show "filter (\<lambda>u. firstFull u = firstFull d) (uniqueOtherLogs logs) = [d]"
    by (simp add: uniqueOtherLogs_filter P_def)
  show "take 8 (itemText owner repo True d) = ''- **docs''"
    using h by (simp add: itemText_def scopeText_def)
qed

theorem C2_witness:
  "convertStringToLog (split docsChoreLog lineDelimiter) = Inr ([choreItem, docsItem], [''alice''])
   \<and> list_all (\<lambda>item. hashes item \<noteq> []) [choreItem, docsItem]
   \<and> allOtherLogs [choreItem, docsItem] = [docsItem, choreItem]
   \<and> uniqueOtherLogs [choreItem, docsItem] = [docsItem]
   \<and> buildFooter ''o'' ''r'' [choreItem, docsItem]
       = Inr (footerIntro @ concat (map (itemText ''o'' ''r'' True) [docsItem]))
   \<and> docsItem \<in> set [choreItem, docsItem] \<and> choreItem \<in> set [choreItem, docsItem]
   \<and> type docsItem = ''docs'' \<and> type choreItem = ''chore''
   \<and> firstFull choreItem = firstFull docsItem
   \<and> filter (\<lambda>u. firstFull u = firstFull docsItem) (uniqueOtherLogs [choreItem, docsItem])
       = [docsItem]
   \<and> take 8 (itemText ''o'' ''r'' True docsItem) = ''- **docs''
   \<and> buildChangelog ''o'' ''r'' docsChoreLog
       = Inr ([LF] @ footerIntro
              @ ''- **docs(api):** usage ([a1b2](https://github.com/o/r/commit/a1b2c3d4))'' @ [LF])"
proof -
  have h: "list_all (\<lambda>item. hashes item \<noteq> []) [choreItem, docsItem]"
    by (simp add: choreItem_def docsItem_def)
  have p: "docsItem \<in> set [choreItem, docsItem] \<and> choreItem \<in> set [choreItem, docsItem]
      \<and> type docsItem = ''docs'' \<and> type choreItem = ''chore''
      \<and> firstFull choreItem = firstFull docsItem
      \<and> (\<forall>x\<in>set [choreItem, docsItem].
            firstFull x = firstFull docsItem \<longrightarrow> x = docsItem \<or> x = choreItem)"
    by (simp add: choreItem_def docsItem_def firstFull_def)
  have n: "allOtherLogs [choreItem, docsItem] \<noteq> []"
    using docsChoreLog_unique by simp
  show ?thesis
    using C2_footer_first_writer_wins
        [of "[choreItem, docsItem]" "''o''" "''r''" docsItem choreItem]
      h p n docsChoreLog_unique docsChoreLog_parse docsChoreLog_assemble
    by (simp add: buildChangelog_def)
qed

text \<open>
  C3. The claim: the thank-you header is emitted exactly when there are at least two
  distinct non-bot user names or at least two distinct non-bot committers. The code counts
  the user-name annotations with their repetitions (\<^verbatim>\<open>.flat().length\<close>): two commits of
  the same committer that both credit \<^verbatim>\<open>@alice\<close> give the count 2, with one distinct user
  name and one committer, and the header is emitted.
\<close>

theorem C3_same_username_twice_emits_header:
  "convertStringToLog (split aliceLog lineDelimiter)
     = Inr ([aliceItem1, aliceItem2], [''alice''])
   \<and> remdups (concat (map usernames [aliceItem1, aliceItem2])) = [''@alice'']
   \<and> contributorCount [aliceItem1, aliceItem2] = 2
   \<and> buildChangelog ''o'' ''r'' aliceLog
       = Inr (header @ [LF, LF] @ ''### Bug Fixes'' @ [LF, LF]
              @ ''- one (@alice) ([a1b2](https://github.com/o/r/commit/a1b2c3d4))'' @ [LF]
              @ ''- two (@alice) ([e5f6](https://github.com/o/r/commit/e5f6a7b8))'' @ [LF])"
  using aliceLog_parse aliceLog_assemble aliceLog_count
  by (simp add: buildChangelog_def)

text \<open>
  C4, as claimed: the parser never produces a record whose type lies outside the
  vocabulary of conventional types. The code has no such check (the vocabulary is
  commented out): the title \<^verbatim>\<open>foo: bar\<close> matches the grammar and is stored with the type
  \<^verbatim>\<open>foo\<close>.
\<close>

theorem C4_counterexample:
  "convertStringToLog (split fooLog lineDelimiter) = Inr ([fooItem], [''alice''])
   \<and> type fooItem = ''foo'' \<and> ''foo'' \<notin> set CommitTypes"
  using fooLog_parse by (simp add: fooItem_def CommitTypes_def)

text \<open>
  C4, amended: the type of every record the parser produces is the leading token of a
  title that matches the grammar, a non-empty string of word characters
  (\<^verbatim>\<open>[A-Za-z0-9_]\<close>), whether or not it belongs to the vocabulary. An entry is
  dropped, and not stored, when its title does not match the grammar; an entry whose title
  matches is stored with the first capture \<open>t\<close> as its type.
\<close>

theorem C4_type_is_a_word:
  "(convertStringToLog lines = Inr (log, committers)
      \<longrightarrow> (\<forall>r\<in>set log. type r \<noteq> [] \<and> list_all isWord (type r)))
   \<and> (line \<noteq> [] \<and> line \<noteq> [CR] \<and> line \<noteq> [LF]
        \<and> map trim (split line logDelimiter) = hash # shortHash # title # rest
        \<and> jsMatch titleRegex title = None
      \<longrightarrow> convertLine (log0, cs0) line = Inr (log0, cs0))
   \<and> (line \<noteq> [] \<and> line \<noteq> [CR] \<and> line \<noteq> [LF]
        \<and> map trim (split line logDelimiter) = hash # shortHash # title # rest
        \<and> Option.bind (jsMatch titleRegex title) (\<lambda>m. m 1) = Some t
      \<longrightarrow> t \<noteq> [] \<and> list_all isWord t
          \<and> (\<exists>r cs1. convertLine (log0, cs0) line = Inr (log0 @ [r], cs1) \<and> type r = t))"
proof (intro conjI impI)
  assume "convertStringToLog lines = Inr (log, committers)"
  then show "\<forall>r\<in>set log. type r \<noteq> [] \<and> list_all isWord (type r)"
    using convertStringToLog_parsed [of lines log committers]
    by (simp add: list_all_iff parsedItem_def)
next
  assume "line \<noteq> [] \<and> line \<noteq> [CR] \<and> line \<noteq> [LF]
        \<and> map trim (split line logDelimiter) = hash # shortHash # title # rest
        \<and> jsMatch titleRegex title = None"
  then show "convertLine (log0, cs0) line = Inr (log0, cs0)"
    by (simp add: convertLine_def)
next
  assume l: "line \<noteq> [] \<and> line \<noteq> [CR] \<and> line \<noteq> [LF]
        \<and> map trim (split line logDelimiter) = hash # shortHash # title # rest
        \<and> Option.bind (jsMatch titleRegex title) (\<lambda>m. m 1) = Some t"
  then obtain m where m: "jsMatch titleRegex title = Some m" "m 1 = Some t"
    by (auto simp: bind_eq_Some_conv)
  from jsMatch_titleRegex [OF m(1)] m(2) obtain w3 where
    w: "t \<noteq> []" "list_all isWord t" "m 3 = Some w3" "w3 \<noteq> []"
    by auto
  show "t \<noteq> []" "list_all isWord t" using w by simp_all
  show "\<exists>r cs1. convertLine (log0, cs0) line = Inr (log0 @ [r], cs1) \<and> type r = t"
    using l m w by (simp add: convertLine_def Let_def)
qed

theorem C4_witness:
  "convertStringToLog (split fooLog lineDelimiter) = Inr ([fooItem], [''alice''])
   \<and> type fooItem \<noteq> [] \<and> list_all isWord (type fooItem)
   \<and> map trim (split mergeLine logDelimiter)
       = [''a1b2c3d4'', ''a1b2'', ''Merge branch dev'', [], ''alice'']
   \<and> jsMatch titleRegex ''Merge branch dev'' = None
   \<and> convertLine ([], []) mergeLine = Inr ([], [])
   \<and> map trim (split fooLine logDelimiter) = [''a1b2c3d4'', ''a1b2'', ''foo: bar'', [], ''alice'']
   \<and> Option.bind (jsMatch titleRegex ''foo: bar'') (\<lambda>m. m 1) = Some ''foo''
   \<and> (\<exists>r cs1. convertLine ([], []) fooLine = Inr ([r], cs1) \<and> type r = ''foo'')"
proof -
  have ne: "mergeLine \<noteq> [] \<and> mergeLine \<noteq> [CR] \<and> mergeLine \<noteq> [LF]"
    "fooLine \<noteq> [] \<and> fooLine \<noteq> [CR] \<and> fooLine \<noteq> [LF]"
    by (simp_all add: mergeLine_def fooLine_def logFields_def logDelimiter_def)
  show ?thesis
    using ne fooLog_parse mergeLine_fields mergeLine_no_match fooLine_fields fooLine_type
      C4_type_is_a_word [of "split fooLog lineDelimiter" "[fooItem]" "[''alice'']"
        mergeLine "''a1b2c3d4''" "''a1b2''" "''Merge branch dev''" "[[], ''alice'']" "[]" "[]"]
      C4_type_is_a_word [of "split fooLog lineDelimiter" "[fooItem]" "[''alice'']"
        fooLine "''a1b2c3d4''" "''a1b2''" "''foo: bar''" "[[], ''alice'']" "[]" "[]" "''foo''"]
    by simp
qed

text \<open>
  C5. A record whose type is outside the recognised set is rendered in no block of the
  output: it is not among the records of any section (which have the type \<^verbatim>\<open>feat\<close>,
  \<^verbatim>\<open>impr\<close> or \<^verbatim>\<open>fix\<close>), nor among the records the footer collects or renders; and every
  section and the footer are the same text as for the log without such records.
\<close>

theorem C5_unrecognized_type_not_rendered:
  "(type r \<notin> set CommitTypes \<longrightarrow>
      r \<notin> set (sectionItems ty logs) \<and> r \<notin> set (allOtherLogs logs)
      \<and> r \<notin> set (uniqueOtherLogs logs))
   \<and> buildSection owner repo ty logs
       = buildSection owner repo ty (filter (\<lambda>x. type x \<in> set CommitTypes) logs)
   \<and> buildFooter owner repo logs
       = buildFooter owner repo (filter (\<lambda>x. type x \<in> set CommitTypes) logs)"
proof (intro conjI impI)
  assume t: "type r \<notin> set CommitTypes"
  show "r \<notin> set (sectionItems ty logs)"
    using t by (cases ty) (auto simp: sectionItems_def CommitTypes_def)
  show a: "r \<notin> set (allOtherLogs logs)"
    using t allOtherLogs_types [of r logs] by (auto simp: CommitTypes_def)
  show "r \<notin> set (uniqueOtherLogs logs)"
    using a uniqueOtherLogs_subset [of logs] by blast
next
  show "buildSection owner repo ty logs
       = buildSection owner repo ty (filter (\<lambda>x. type x \<in> set CommitTypes) logs)"
    by (simp add: buildSection_def sectionItems_recognized)
next
  show "buildFooter owner repo logs
       = buildFooter owner repo (filter (\<lambda>x. type x \<in> set CommitTypes) logs)"
    by (simp add: buildFooter_def uniqueOtherLogs_def allOtherLogs_recognized)
qed

theorem C5_witness:
  "type fooItem \<notin> set CommitTypes
   \<and> fooItem \<notin> set (sectionItems Fix [fooItem])
   \<and> fooItem \<notin> set (allOtherLogs [fooItem])
   \<and> fooItem \<notin> set (uniqueOtherLogs [fooItem])
   \<and> buildSection ''o'' ''r'' Fix [fooItem] = buildSection ''o'' ''r'' Fix []
   \<and> buildFooter ''o'' ''r'' [fooItem] = buildFooter ''o'' ''r'' []"
proof -
  have "type fooItem \<notin> set CommitTypes"
    by (simp add: fooItem_def CommitTypes_def)
  then show ?thesis
    using C5_unrecognized_type_not_rendered [of fooItem Fix "[fooItem]" "''o''" "''r''"]
    by simp
qed

text \<open>
  C6. The claim: if no log entry parses into a record, \<^verbatim>\<open>buildChangelog\<close> returns the
  empty string, with no header, no section, no footer and no error. On the logs \<^verbatim>\<open>" "\<close>
  and \<^verbatim>\<open>"x"\<close> the only entry has one field and parses into no record, but the result is
  not the empty string: \<^verbatim>\<open>title\<close> is undefined and \<^verbatim>\<open>title.match\<close> throws, in the parser and so
  in \<^verbatim>\<open>buildChangelog\<close>. The empty log does give the empty string.
\<close>

theorem C6_no_record_log_throws:
  "split '' '' lineDelimiter = ['' '']
   \<and> convertStringToLog (split '' '' lineDelimiter) = Inl TypeError
   \<and> buildChangelog owner repo '' '' = Inl TypeError
   \<and> buildChangelog owner repo '' '' \<noteq> Inr []
   \<and> split ''x'' lineDelimiter = [''x'']
   \<and> convertStringToLog (split ''x'' lineDelimiter) = Inl TypeError
   \<and> buildChangelog owner repo ''x'' = Inl TypeError
   \<and> buildChangelog owner repo [] = Inr []"
proof -
  have s1: "split '' '' lineDelimiter = ['' '']"
    by code_simp
  have s2: "split ''x'' lineDelimiter = [''x'']"
    by code_simp
  have c1: "convertStringToLog ['' ''] = Inl TypeError"
    by code_simp
  have c2: "convertStringToLog [''x''] = Inl TypeError"
    by code_simp
  have b1: "buildChangelog owner repo '' '' = Inl TypeError"
    using s1 c1 by (simp add: buildChangelog_def)
  have b2: "buildChangelog owner repo ''x'' = Inl TypeError"
    using s2 c2 by (simp add: buildChangelog_def)
  show ?thesis
    using s1 s2 c1 c2 b1 b2 by (simp add: buildChangelog_empty_log)
qed

text \<open>
  C7, as claimed: the three sections are titled \<^verbatim>\<open>### Features\<close>, \<^verbatim>\<open>### Improvements\<close> and
  \<^verbatim>\<open>### Fixes\<close>. The table \<^verbatim>\<open>titles\<close> of the code names the third one \<^verbatim>\<open>Bug Fixes\<close>: for a
  log of one unmarked \<^verbatim>\<open>fix\<close> commit the heading is \<^verbatim>\<open>### Bug Fixes\<close>, and \<^verbatim>\<open>### Fixes\<close>
  occurs nowhere in the output.
\<close>

theorem C7_counterexample:
  "convertStringToLog (split fixLog lineDelimiter) = Inr ([fixItem], [''alice''])
   \<and> type fixItem = ''fix'' \<and> \<not> strIncludes (body fixItem) ''!nuf''
   \<and> buildChangelog ''o'' ''r'' fixLog
       = Inr (''### Bug Fixes'' @ [LF, LF]
              @ ''- crash ([a1b2](https://github.com/o/r/commit/a1b2c3d4))'' @ [LF])
   \<and> \<not> strIncludes (''### Bug Fixes'' @ [LF, LF]
              @ ''- crash ([a1b2](https://github.com/o/r/commit/a1b2c3d4))'' @ [LF])
            ''### Fixes''"
  using fixLog_parse fixLog_assemble fixLog_no_Fixes_heading
  by (simp add: buildChangelog_def fixItem_def)

text \<open>
  C7, amended: the sections are titled exactly \<^verbatim>\<open>### Features\<close>, \<^verbatim>\<open>### Improvements\<close> and
  \<^verbatim>\<open>### Bug Fixes\<close>, each heading followed by an empty line and the lines of the
  section; a type without unmarked records has no section. In particular, for any input
  with at least one unmarked \<^verbatim>\<open>fix\<close> record the output of \<^verbatim>\<open>buildChangelog\<close> contains the
  heading \<^verbatim>\<open>### Bug Fixes\<close>.
\<close>

theorem C7_section_titles:
  "(sectionItems Feat logs \<noteq> [] \<longrightarrow>
      buildSection owner repo Feat logs
        = ''### Features'' @ [LF, LF] @ buildItems owner repo (sectionItems Feat logs) False)
   \<and> (sectionItems Impr logs \<noteq> [] \<longrightarrow>
      buildSection owner repo Impr logs
        = ''### Improvements'' @ [LF, LF] @ buildItems owner repo (sectionItems Impr logs) False)
   \<and> (sectionItems Fix logs \<noteq> [] \<longrightarrow>
      buildSection owner repo Fix logs
        = ''### Bug Fixes'' @ [LF, LF] @ buildItems owner repo (sectionItems Fix logs) False)
   \<and> (sectionItems ty logs = [] \<longrightarrow> buildSection owner repo ty logs = [])
   \<and> (assemble owner repo logs committers = Inr out \<and> sectionItems Fix logs \<noteq> [] \<longrightarrow>
        (\<exists>pre post. out = pre @ ''### Bug Fixes'' @ [LF, LF] @ post))"
proof (intro conjI impI)
  assume "assemble owner repo logs committers = Inr out \<and> sectionItems Fix logs \<noteq> []"
  then have out: "assemble owner repo logs committers = Inr out"
    and ne: "sectionItems Fix logs \<noteq> []" by simp_all
  let ?f = "\<lambda>ty. buildSection owner repo ty logs"
  obtain rest where fx: "?f Fix = ''### Bug Fixes'' @ [LF, LF] @ rest"
    using ne by (simp add: buildSection_def)
  then have fxne: "?f Fix \<noteq> []" by simp
  have "\<exists>pre. join [LF] (filter (\<lambda>section. section \<noteq> []) (map ?f titleKeys)) = pre @ ?f Fix"
  proof (cases "?f Feat = []")
    case True
    show ?thesis
    proof (cases "?f Impr = []")
      case True
      with \<open>?f Feat = []\<close> fxne show ?thesis by (simp add: titleKeys_def)
    next
      case False
      with \<open>?f Feat = []\<close> fxne show ?thesis by (simp add: titleKeys_def)
    qed
  next
    case False
    show ?thesis
    proof (cases "?f Impr = []")
      case True
      with \<open>?f Feat \<noteq> []\<close> fxne show ?thesis by (simp add: titleKeys_def)
    next
      case False
      with \<open>?f Feat \<noteq> []\<close> fxne show ?thesis by (simp add: titleKeys_def)
    qed
  qed
  then obtain pre where
    pre: "join [LF] (filter (\<lambda>section. section \<noteq> []) (map ?f titleKeys)) = pre @ ?f Fix"
    by blast
  obtain footer where ft: "buildFooter owner repo logs = Inr footer"
    using out by (cases "buildFooter owner repo logs") (simp_all add: assemble_def)
  let ?h = "if contributorCount logs > 1 \<or> length committers > 1 then header @ [LF, LF] else []"
  have "out = ?h @ join [LF] (filter (\<lambda>section. section \<noteq> []) (map ?f titleKeys))
                @ (if footer \<noteq> [] then [LF] @ footer else [])"
    using out ft by (auto simp: assemble_def Let_def)
  then have "out = (?h @ pre) @ ''### Bug Fixes'' @ [LF, LF]
                @ (rest @ (if footer \<noteq> [] then [LF] @ footer else []))"
    unfolding pre fx by simp
  then show "\<exists>pre post. out = pre @ ''### Bug Fixes'' @ [LF, LF] @ post"
    by blast
qed (simp_all add: buildSection_def)

theorem C7_witness:
  "sectionItems Feat [featItem, imprItem, fixItem] \<noteq> []
   \<and> buildSection ''o'' ''r'' Feat [featItem, imprItem, fixItem]
       = ''### Features'' @ [LF, LF]
         @ buildItems ''o'' ''r'' (sectionItems Feat [featItem, imprItem, fixItem]) False
   \<and> sectionItems Impr [featItem, imprItem, fixItem] \<noteq> []
   \<and> buildSection ''o'' ''r'' Impr [featItem, imprItem, fixItem]
       = ''### Improvements'' @ [LF, LF]
         @ buildItems ''o'' ''r'' (sectionItems Impr [featItem, imprItem, fixItem]) False
   \<and> sectionItems Fix [featItem, imprItem, fixItem] \<noteq> []
   \<and> buildSection ''o'' ''r'' Fix [featItem, imprItem, fixItem]
       = ''### Bug Fixes'' @ [LF, LF]
         @ buildItems ''o'' ''r'' (sectionItems Fix [featItem, imprItem, fixItem]) False
   \<and> sectionItems Feat [fixItem] = []
   \<and> buildSection ''o'' ''r'' Feat [fixItem] = []
   \<and> sectionItems Fix [fixItem] \<noteq> []
   \<and> assemble ''o'' ''r'' [fixItem] [''alice'']
       = Inr (''### Bug Fixes'' @ [LF, LF]
              @ ''- crash ([a1b2](https://github.com/o/r/commit/a1b2c3d4))'' @ [LF])
   \<and> (\<exists>pre post. ''### Bug Fixes'' @ [LF, LF]
              @ ''- crash ([a1b2](https://github.com/o/r/commit/a1b2c3d4))'' @ [LF]
          = pre @ ''### Bug Fixes'' @ [LF, LF] @ post)"
proof -
  have s: "sectionItems Feat [featItem, imprItem, fixItem] \<noteq> []"
    "sectionItems Impr [featItem, imprItem, fixItem] \<noteq> []"
    "sectionItems Fix [featItem, imprItem, fixItem] \<noteq> []"
    "sectionItems Feat [fixItem] = []"
    "sectionItems Fix [fixItem] \<noteq> []"
    by (simp_all add: sectionItems_def featItem_def imprItem_def fixItem_def)
  have a: "assemble ''o'' ''r'' [fixItem] [''alice'']
       = Inr (''### Bug Fixes'' @ [LF, LF]
              @ ''- crash ([a1b2](https://github.com/o/r/commit/a1b2c3d4))'' @ [LF])
     \<and> sectionItems Fix [fixItem] \<noteq> []"
    using fixLog_assemble s(5) by simp
  show ?thesis
    using s fixLog_assemble
      C7_section_titles [of "[featItem, imprItem, fixItem]" "''o''" "''r''" Feat]
      C7_section_titles [of "[fixItem]" "''o''" "''r''" Feat "[''alice'']"
        "''### Bug Fixes'' @ [LF, LF]
              @ ''- crash ([a1b2](https://github.com/o/r/commit/a1b2c3d4))'' @ [LF]",
        THEN conjunct2, THEN conjunct2, THEN conjunct2, THEN conjunct2, rule_format, OF a]
      C7_section_titles [of "[fixItem]" "''o''" "''r''" Feat]
    by simp
qed

text \<open>
  C8. The claim: every entry is trimmed first and skipped when the trimmed entry is empty,
  so that a white-space entry such as \<^verbatim>\<open>" "\<close> or \<^verbatim>\<open>"\r\n"\<close> gives no record and no
  failure. The code compares the untrimmed entry with \<^verbatim>\<open>""\<close>, \<^verbatim>\<open>"\r"\<close> and \<^verbatim>\<open>"\n"\<close>
  only: these three are skipped, while \<^verbatim>\<open>" "\<close> and \<^verbatim>\<open>"\r\n"\<close> go on to the field
  split, leave \<^verbatim>\<open>title\<close> undefined and make \<^verbatim>\<open>title.match\<close> throw.
\<close>

theorem C8_whitespace_entry_throws:
  "convertStringToLog [[], [CR], [LF]] = Inr ([], [])
   \<and> convertStringToLog ['' ''] = Inl TypeError
   \<and> convertStringToLog [[CR, LF]] = Inl TypeError
   \<and> buildChangelog owner repo '' '' = Inl TypeError
   \<and> buildChangelog owner repo [CR, LF] = Inl TypeError"
proof -
  have skip: "convertStringToLog [[], [CR], [LF]] = Inr ([], [])"
    by (simp add: convertStringToLog_def convertLine_def)
  have sp: "convertStringToLog ['' ''] = Inl TypeError"
    by code_simp
  have crlf: "convertStringToLog [[CR, LF]] = Inl TypeError"
    by code_simp
  have "split '' '' lineDelimiter = ['' '']"
    by code_simp
  moreover have "split [CR, LF] lineDelimiter = [[CR, LF]]"
    by code_simp
  ultimately show ?thesis
    using skip sp crlf by (simp add: buildChangelog_def)
qed

text \<open>
  C9. Each record is rendered as exactly one list line of the form
  \<^verbatim>\<open>- [**scope:** ]message[ (@user1, @user2)][ (#123, #456)] (hash-links)\<close>. The loop of
  \<^verbatim>\<open>buildItems\<close> returns the lines of its records, one line each and in their order,
  every line as the specification words it (\<^const>\<open>specLine\<close>, with the links
  \<^const>\<open>specPrLink\<close> and \<^const>\<open>specCommitLink\<close> of the specification): the bold scope only
  when there is a scope, the groups of user names and of pull requests only when not
  empty, the group of commit links always, with one markdown link
  \<^verbatim>\<open>[short](https://github.com/owner/repo/commit/full)\<close> for every hash pair; the sections
  render with the scope prefix and the footer with the merged prefix \<^verbatim>\<open>**type(scope):**\<close>
  or \<^verbatim>\<open>**type:**\<close>. The last four conjuncts are the links and the groups written out.
\<close>

theorem C9_line_format:
  "buildItems owner repo items mergeTypeAndScope
     = concat (map (specLine owner repo mergeTypeAndScope) items)
   \<and> buildSection owner repo ty logs
     = (if sectionItems ty logs = [] then []
        else ''### '' @ titles ty @ [LF, LF]
             @ concat (map (specLine owner repo False) (sectionItems ty logs)))
   \<and> buildFooter owner repo logs
     = (if list_ex (\<lambda>item. hashes item = []) (allOtherLogs logs) then Inl TypeError
        else Inr (if allOtherLogs logs = [] then []
                  else footerIntro
                       @ concat (map (specLine owner repo True) (uniqueOtherLogs logs))))
   \<and> getCommitLink owner repo hash longHash
     = ''['' @ hash @ ''](https://github.com/'' @ owner @ ''/'' @ repo @ ''/commit/'' @ longHash
       @ '')''
   \<and> getPrLink owner repo (CHR ''#'' # num)
     = ''[#'' @ num @ ''](https://github.com/'' @ owner @ ''/'' @ repo @ ''/pull/'' @ num @ '')''
   \<and> hashText owner repo item
     = '' ('' @ join '', '' (map (specCommitLink owner repo) (hashes item)) @ '')''
   \<and> prText owner repo item
     = (if prs item = [] then []
        else '' ('' @ join '', '' (map (specPrLink owner repo) (prs item)) @ '')'')"
proof -
  have eq: "itemText owner repo m = specLine owner repo m" for m
    by (rule ext) (rule itemText_specLine)
  note l = link_functions_spec [of owner repo]
  have "buildItems owner repo items mergeTypeAndScope
     = concat (map (specLine owner repo mergeTypeAndScope) items)"
    by (simp add: buildItems_eq eq)
  moreover have "buildSection owner repo ty logs
     = (if sectionItems ty logs = [] then []
        else ''### '' @ titles ty @ [LF, LF]
             @ concat (map (specLine owner repo False) (sectionItems ty logs)))"
    by (simp add: buildSection_eq eq)
  moreover have "buildFooter owner repo logs
     = (if list_ex (\<lambda>item. hashes item = []) (allOtherLogs logs) then Inl TypeError
        else Inr (if allOtherLogs logs = [] then []
                  else footerIntro
                       @ concat (map (specLine owner repo True) (uniqueOtherLogs logs))))"
    by (simp add: buildFooter_eq eq)
  moreover have "getCommitLink owner repo hash longHash
     = ''['' @ hash @ ''](https://github.com/'' @ owner @ ''/'' @ repo @ ''/commit/'' @ longHash
       @ '')''"
    by (simp add: getCommitLink_def)
  moreover have "getPrLink owner repo (CHR ''#'' # num)
     = ''[#'' @ num @ ''](https://github.com/'' @ owner @ ''/'' @ repo @ ''/pull/'' @ num @ '')''"
    by (simp add: getPrLink_def Let_def replaceHash_def)
  moreover have "hashText owner repo item
     = '' ('' @ join '', '' (map (specCommitLink owner repo) (hashes item)) @ '')''"
    by (simp add: hashText_def l)
  moreover have "prText owner repo item
     = (if prs item = [] then []
        else '' ('' @ join '', '' (map (specPrLink owner repo) (prs item)) @ '')'')"
    by (simp add: prText_def l)
  ultimately show ?thesis by simp
qed

theorem C9_witness:
  "buildItems ''o'' ''r'' [wideItem, imprItem] False
     = ''- **ui:** button (@al, @bo)''
       @ '' ([#10](https://github.com/o/r/pull/10), [#11](https://github.com/o/r/pull/11))''
       @ '' ([c0ff](https://github.com/o/r/commit/c0ffee00),''
       @ '' [beef](https://github.com/o/r/commit/beef0001))'' @ [LF]
       @ ''- speed ([beef](https://github.com/o/r/commit/beef0001))'' @ [LF]
   \<and> buildItems ''o'' ''r'' [wideItem, imprItem] True
     = ''- **feat(ui):** button (@al, @bo)''
       @ '' ([#10](https://github.com/o/r/pull/10), [#11](https://github.com/o/r/pull/11))''
       @ '' ([c0ff](https://github.com/o/r/commit/c0ffee00),''
       @ '' [beef](https://github.com/o/r/commit/beef0001))'' @ [LF]
       @ ''- **impr:** speed ([beef](https://github.com/o/r/commit/beef0001))'' @ [LF]
   \<and> getPrLink ''o'' ''r'' ''#10'' = ''[#10](https://github.com/o/r/pull/10)''
   \<and> getCommitLink ''o'' ''r'' ''c0ff'' ''c0ffee00''
       = ''[c0ff](https://github.com/o/r/commit/c0ffee00)''"
proof -
  have s: "concat (map (specLine ''o'' ''r'' False) [wideItem, imprItem])
     = ''- **ui:** button (@al, @bo)''
       @ '' ([#10](https://github.com/o/r/pull/10), [#11](https://github.com/o/r/pull/11))''
       @ '' ([c0ff](https://github.com/o/r/commit/c0ffee00),''
       @ '' [beef](https://github.com/o/r/commit/beef0001))'' @ [LF]
       @ ''- speed ([beef](https://github.com/o/r/commit/beef0001))'' @ [LF]"
    by code_simp
  have f: "concat (map (specLine ''o'' ''r'' True) [wideItem, imprItem])
     = ''- **feat(ui):** button (@al, @bo)''
       @ '' ([#10](https://github.com/o/r/pull/10), [#11](https://github.com/o/r/pull/11))''
       @ '' ([c0ff](https://github.com/o/r/commit/c0ffee00),''
       @ '' [beef](https://github.com/o/r/commit/beef0001))'' @ [LF]
       @ ''- **impr:** speed ([beef](https://github.com/o/r/commit/beef0001))'' @ [LF]"
    by code_simp
  show ?thesis
    using s f
      C9_line_format [of "''o''" "''r''" "[wideItem, imprItem]" False Fix "[]"
        "''c0ff''" "''c0ffee00''" "''10''" wideItem]
      C9_line_format [of "''o''" "''r''" "[wideItem, imprItem]" True Fix "[]"
        "''c0ff''" "''c0ffee00''" "''10''" wideItem]
    by simp
qed

text \<open>
  C10. Every record produced within one call of \<^verbatim>\<open>buildChangelog\<close> has exactly one hash
  pair. So the group of commit links of its line holds exactly one link, the full hash
  the footer compares (\<^verbatim>\<open>hashes[0].full\<close>) is the only full hash of the record, and two
  records agree on it exactly when they agree on all their full hashes. Records are never
  merged: what the sections and the footer render are records of the parser, unchanged.
\<close>

theorem C10_one_hash_per_record:
  assumes "convertStringToLog lines = Inr (log, committers)"
  shows "(\<forall>r\<in>set log. \<exists>h. hashes r = [h] \<and> length (hashes r) = 1
            \<and> firstFull r = Some (full h)
            \<and> hashText owner repo r
                = '' ('' @ getCommitLink owner repo (short h) (full h) @ '')'')
       \<and> (\<forall>r1\<in>set log. \<forall>r2\<in>set log.
            (firstFull r1 = firstFull r2) = (map full (hashes r1) = map full (hashes r2)))
       \<and> set (sectionItems ty log) \<subseteq> set log
       \<and> set (uniqueOtherLogs log) \<subseteq> set log"
proof -
  have one: "\<exists>h. hashes r = [h]" if "r \<in> set log" for r
  proof -
    have "length (hashes r) = 1"
      using convertStringToLog_parsed [OF assms] that
      by (simp add: list_all_iff parsedItem_def)
    then show ?thesis by (cases "hashes r") auto
  qed
  have a: "\<forall>r\<in>set log. \<exists>h. hashes r = [h] \<and> length (hashes r) = 1
            \<and> firstFull r = Some (full h)
            \<and> hashText owner repo r
                = '' ('' @ getCommitLink owner repo (short h) (full h) @ '')''"
  proof
    fix r assume "r \<in> set log"
    then obtain h where "hashes r = [h]" using one by blast
    then show "\<exists>h. hashes r = [h] \<and> length (hashes r) = 1
            \<and> firstFull r = Some (full h)
            \<and> hashText owner repo r
                = '' ('' @ getCommitLink owner repo (short h) (full h) @ '')''"
      by (simp add: firstFull_def hashText_def)
  qed
  have b: "\<forall>r1\<in>set log. \<forall>r2\<in>set log.
            (firstFull r1 = firstFull r2) = (map full (hashes r1) = map full (hashes r2))"
  proof (intro ballI)
    fix r1 r2 assume "r1 \<in> set log" "r2 \<in> set log"
    then obtain h1 h2 where "hashes r1 = [h1]" "hashes r2 = [h2]" using one by blast
    then show "(firstFull r1 = firstFull r2) = (map full (hashes r1) = map full (hashes r2))"
      by (simp add: firstFull_def)
  qed
  have c: "set (sectionItems ty log) \<subseteq> set log"
    by (auto simp: sectionItems_def)
  have "set (allOtherLogs log) \<subseteq> set log"
    by (auto simp: allOtherLogs_def)
  then have d: "set (uniqueOtherLogs log) \<subseteq> set log"
    using keepFirst_subset [of "{}" "allOtherLogs log"]
    by (simp add: uniqueOtherLogs_def uniqueLogs_keepFirst)
  show ?thesis using a b c d by blast
qed

theorem C10_witness:
  "convertStringToLog (split fooLog lineDelimiter) = Inr ([fooItem], [''alice''])
   \<and> hashes fooItem = [\<lparr> short = ''a1b2'', full = ''a1b2c3d4'' \<rparr>]
   \<and> length (hashes fooItem) = 1
   \<and> firstFull fooItem = Some ''a1b2c3d4''
   \<and> hashText ''o'' ''r'' fooItem = '' ([a1b2](https://github.com/o/r/commit/a1b2c3d4))''"
  using C10_one_hash_per_record [OF fooLog_parse, of "''o''" "''r''" Fix] fooLog_parse
  by (simp add: fooItem_def getCommitLink_def)

end
